theory Spec2Isabelle
  imports Main "HOL-Library.Log_Nat"
begin

section \<open>Strings of decimal digits\<close>

text \<open>
  The component works on JavaScript strings. They are modelled as lists of characters whose
  code units are below 256, which covers every string the functions below build themselves
  (digits, sign, separator) and every base-10 amount.
\<close>

definition is_digit :: "char \<Rightarrow> bool" where
  "is_digit c \<longleftrightarrow> (48::nat) \<le> of_char c \<and> of_char c \<le> (57::nat)"

definition digit_val :: "char \<Rightarrow> nat" where
  "digit_val c = of_char c - 48"

definition digit_char :: "nat \<Rightarrow> char" where
  "digit_char d = char_of (48 + d)"

text \<open>The value of a string of decimal digits, most significant digit first.\<close>

definition digits_value :: "string \<Rightarrow> nat" where
  "digits_value s = foldl (\<lambda>r c. r * 10 + digit_val c) 0 s"

text \<open>The decimal numeral of a natural number, without leading zeros (\<open>0\<close> is \<open>''0''\<close>).\<close>

fun digits_of_nat :: "nat \<Rightarrow> string" where
  "digits_of_nat n =
     (if n < 10 then [digit_char n] else digits_of_nat (n div 10) @ [digit_char (n mod 10)])"

declare digits_of_nat.simps [simp del]

text \<open>\<^verbatim>\<open>String.prototype.padStart(targetLength, fill)\<close> with a one-character fill.\<close>

definition padStart :: "nat \<Rightarrow> char \<Rightarrow> string \<Rightarrow> string" where
  "padStart targetLength fill s = replicate (targetLength - length s) fill @ s"

text \<open>
  The characters matched by the regular expression class \<^verbatim>\<open>\s\<close> among the code units below
  256: tab, line feed, vertical tab, form feed, carriage return, space, no-break space.
\<close>

definition is_space :: "char \<Rightarrow> bool" where
  "is_space c \<longleftrightarrow> (of_char c :: nat) \<in> {9, 10, 11, 12, 13, 32, 160}"

section \<open>The big integers of bn.js\<close>

text \<open>
  The source imports \<^verbatim>\<open>BN\<close> from the bn.js package (version 5.2) and uses its constructor on
  a string and on a number, \<^verbatim>\<open>pow\<close>, \<^verbatim>\<open>div\<close>, \<^verbatim>\<open>mod\<close> and \<^verbatim>\<open>toString\<close>. A \<^verbatim>\<open>BN\<close> is an
  integer of arbitrary size, modelled as \<^typ>\<open>int\<close>.

  \<^verbatim>\<open>new BN(str)\<close> in base 10: the empty string is falsy and gives 0; otherwise all white
  space is removed, a leading \<^verbatim>\<open>-\<close> is taken as the sign, and every remaining character goes
  through the digit parser, whose assertion throws \<^verbatim>\<open>Error('Invalid character')\<close> on
  anything but \<^verbatim>\<open>0\<close>..\<^verbatim>\<open>9\<close>. This is the parse error of the component. When no character is
  left after the sign, nothing is thrown: bn.js builds a number without limbs, which is
  \<open>None\<close> here. The loop of \<^verbatim>\<open>toString\<close> does not end on such a number, so a function that
  prints it returns nothing; this outcome is \<open>Hangs\<close>.
\<close>

datatype failure = ParseError | Hangs

definition BN_of_string :: "string \<Rightarrow> failure + int option" where
  "BN_of_string number =
     (if number = [] then Inr (Some 0)
      else
        let stripped = filter (\<lambda>c. \<not> is_space c) number;
            negative = (stripped \<noteq> [] \<and> hd stripped = CHR ''-'');
            body = (if negative then tl stripped else stripped)
        in if body = [] then Inr None
           else if \<not> list_all is_digit body then Inl ParseError
           else if negative then Inr (Some (- int (digits_value body)))
           else Inr (Some (int (digits_value body))))"

text \<open>\<^verbatim>\<open>toString()\<close> in base 10: a minus sign for a negative number, then the digits.\<close>

definition BN_toString :: "int \<Rightarrow> string" where
  "BN_toString a = (if a < 0 then CHR ''-'' # digits_of_nat (nat (- a)) else digits_of_nat (nat a))"

text \<open>
  \<^verbatim>\<open>div\<close> and \<^verbatim>\<open>mod\<close> of bn.js truncate towards zero: the quotient has the sign of the
  product of the operands and the remainder has the sign of the dividend.
\<close>

definition BN_div :: "int \<Rightarrow> int \<Rightarrow> int" where
  "BN_div a b = sgn a * sgn b * (\<bar>a\<bar> div \<bar>b\<bar>)"

definition BN_mod :: "int \<Rightarrow> int \<Rightarrow> int" where
  "BN_mod a b = sgn a * (\<bar>a\<bar> mod \<bar>b\<bar>)"

section \<open>JavaScript numbers\<close>

text \<open>
  A JavaScript number is an IEEE 754 double: not-a-number, an infinity with its sign, or a
  finite value \<open>(-1)\<^sup>s * m * 2\<^sup>e\<close> given by its sign (\<open>True\<close> for negative), its
  significand \<open>m\<close> and its exponent \<open>e\<close>. The results of the operations are in the form
  of the format: \<open>m < 2\<^sup>5\<^sup>3\<close>, \<open>-1074 \<le> e \<le> 971\<close>, and \<open>2\<^sup>5\<^sup>2 \<le> m\<close> unless
  \<open>e = -1074\<close>. Both zeros exist. The operations follow ECMAScript: each computes the exact
  result and rounds it to the nearest double, ties to the even significand.
\<close>

datatype number = NaN | Infinity bool | Finite bool nat int

definition zero :: number where
  "zero = Finite False 0 (- 1074)"

fun bit_length :: "nat \<Rightarrow> nat" where
  "bit_length n = (if n = 0 then 0 else Suc (bit_length (n div 2)))"

declare bit_length.simps [simp del]

text \<open>The ratio \<open>a * 2\<^sup>k / b\<close> as a numerator and a denominator.\<close>

definition shift_ratio :: "nat \<Rightarrow> nat \<Rightarrow> int \<Rightarrow> nat \<times> nat" where
  "shift_ratio a b k = (if 0 \<le> k then (a * 2 ^ nat k, b) else (a, b * 2 ^ nat (- k)))"

text \<open>For positive \<open>a\<close> and \<open>b\<close>, the exponent \<open>k\<close> with \<open>2\<^sup>k \<le> a / b < 2\<^sup>k\<^sup>+\<^sup>1\<close>.\<close>

definition floor_log2 :: "nat \<Rightarrow> nat \<Rightarrow> int" where
  "floor_log2 a b =
     (let k = int (bit_length a) - int (bit_length b);
          (p, q) = shift_ratio a b (- k)
      in if q \<le> p then k else k - 1)"

text \<open>The integer nearest to \<open>p / q\<close>, the even one of two that are equally near.\<close>

definition round_half_even :: "nat \<Rightarrow> nat \<Rightarrow> nat" where
  "round_half_even p q =
     (let n = p div q; r = p mod q
      in if 2 * r < q then n else if q < 2 * r then n + 1 else if even n then n else n + 1)"

text \<open>The double nearest to \<open>a / b\<close> with the given sign; overflow gives the infinity.\<close>

definition to_double :: "bool \<Rightarrow> nat \<Rightarrow> nat \<Rightarrow> number" where
  "to_double s a b =
     (if a = 0 then Finite s 0 (- 1074)
      else
        let e = max (floor_log2 a b - 52) (- 1074);
            (p, q) = shift_ratio a b (- e);
            n = round_half_even p q;
            (m, e') = (if n = 2 ^ 53 then (2 ^ 52, e + 1) else (n, e))
        in if 971 < e' then Infinity s else Finite s m e')"

text \<open>The operators \<^verbatim>\<open>*\<close>, \<^verbatim>\<open>/\<close> and \<^verbatim>\<open>+\<close> on numbers.\<close>

fun fmul :: "number \<Rightarrow> number \<Rightarrow> number" where
  "fmul NaN y = NaN"
| "fmul x NaN = NaN"
| "fmul (Infinity s) (Infinity t) = Infinity (s \<noteq> t)"
| "fmul (Infinity s) (Finite t n f) = (if n = 0 then NaN else Infinity (s \<noteq> t))"
| "fmul (Finite s m e) (Infinity t) = (if m = 0 then NaN else Infinity (s \<noteq> t))"
| "fmul (Finite s m e) (Finite t n f) =
     (let (p, q) = shift_ratio (m * n) 1 (e + f) in to_double (s \<noteq> t) p q)"

fun fdiv :: "number \<Rightarrow> number \<Rightarrow> number" where
  "fdiv NaN y = NaN"
| "fdiv x NaN = NaN"
| "fdiv (Infinity s) (Infinity t) = NaN"
| "fdiv (Infinity s) (Finite t n f) = Infinity (s \<noteq> t)"
| "fdiv (Finite s m e) (Infinity t) = Finite (s \<noteq> t) 0 (- 1074)"
| "fdiv (Finite s m e) (Finite t n f) =
     (if n = 0 then (if m = 0 then NaN else Infinity (s \<noteq> t))
      else let (p, q) = shift_ratio m n (e - f) in to_double (s \<noteq> t) p q)"

definition signed :: "bool \<Rightarrow> nat \<Rightarrow> int" where
  "signed s m = (if s then - int m else int m)"

fun fadd :: "number \<Rightarrow> number \<Rightarrow> number" where
  "fadd NaN y = NaN"
| "fadd x NaN = NaN"
| "fadd (Infinity s) (Infinity t) = (if s = t then Infinity s else NaN)"
| "fadd (Infinity s) (Finite t n f) = Infinity s"
| "fadd (Finite s m e) (Infinity t) = Infinity t"
| "fadd (Finite s m e) (Finite t n f) =
     (let g = min e f;
          v = signed s m * 2 ^ nat (e - g) + signed t n * 2 ^ nat (f - g)
      in if v = 0 then Finite (s \<and> t) 0 (- 1074)
         else let (p, q) = shift_ratio (nat \<bar>v\<bar>) 1 g in to_double (v < 0) p q)"

text \<open>The comparison \<^verbatim>\<open><\<close> on numbers; it is false when an operand is not a number.\<close>

fun number_less :: "number \<Rightarrow> number \<Rightarrow> bool" where
  "number_less NaN y = False"
| "number_less x NaN = False"
| "number_less (Infinity s) (Infinity t) = (s \<and> \<not> t)"
| "number_less (Infinity s) (Finite t n f) = s"
| "number_less (Finite s m e) (Infinity t) = (\<not> t)"
| "number_less (Finite s m e) (Finite t n f) =
     (let g = min e f
      in signed s m * 2 ^ nat (e - g) < signed t n * 2 ^ nat (f - g))"

text \<open>
  \<^verbatim>\<open>Math.max\<close> of two numbers: not-a-number when one of them is; the positive zero is
  larger than the negative one.
\<close>

definition is_zero :: "number \<Rightarrow> bool \<Rightarrow> bool" where
  "is_zero x s = (case x of Finite t m e \<Rightarrow> m = 0 \<and> t = s | _ \<Rightarrow> False)"

definition Math_max :: "number \<Rightarrow> number \<Rightarrow> number" where
  "Math_max x y =
     (if x = NaN \<or> y = NaN then NaN
      else if is_zero x True \<and> is_zero y False then y
      else if number_less x y then y
      else x)"

text \<open>A number is falsy when it is a zero or not-a-number: \<^verbatim>\<open>x || 0.0\<close> is then \<open>0.0\<close>.\<close>

definition or_zero :: "number option \<Rightarrow> number" where
  "or_zero x =
     (case x of
        None \<Rightarrow> zero
      | Some NaN \<Rightarrow> zero
      | Some (Infinity s) \<Rightarrow> Infinity s
      | Some (Finite s m e) \<Rightarrow> (if m = 0 then zero else Finite s m e))"

subsection \<open>Numbers to strings\<close>

text \<open>
  \<^verbatim>\<open>Number::toString\<close> for an integer \<open>x \<ge> 10\<^sup>2\<^sup>1\<close> that is a double: the shortest decimal
  numeral \<open>s * 10\<^sup>j\<close> that rounds to \<open>x\<close>, and of two of the same length the one nearer to
  \<open>x\<close>, written with one digit before the point and the exponent. \<open>shortest x j\<close> tries the
  scales \<open>10\<^sup>j\<close>, \<open>10\<^sup>j\<^sup>-\<^sup>1\<close>, ... and returns the numeral as \<open>(s, j)\<close>.
\<close>

fun shortest :: "nat \<Rightarrow> nat \<Rightarrow> nat \<times> nat" where
  "shortest x 0 = (x, 0)"
| "shortest x (Suc j) =
     (let scale = 10 ^ Suc j;
          lo = x div scale;
          hi = lo + 1;
          lo_ok = (lo \<noteq> 0 \<and> to_double False (lo * scale) 1 = to_double False x 1);
          hi_ok = (to_double False (hi * scale) 1 = to_double False x 1);
          lo_err = x - lo * scale;
          hi_err = hi * scale - x
      in if lo_ok \<and> hi_ok then
           (if lo_err < hi_err \<or> (lo_err = hi_err \<and> even lo) then (lo, Suc j) else (hi, Suc j))
         else if lo_ok then (lo, Suc j)
         else if hi_ok then (hi, Suc j)
         else shortest x j)"

definition strip_zeros :: "string \<Rightarrow> string" where
  "strip_zeros ds = rev (dropWhile (\<lambda>c. c = CHR ''0'') (rev ds))"

definition Number_toString_large :: "nat \<Rightarrow> string" where
  "Number_toString_large x =
     (let (s, j) = shortest x (length (digits_of_nat x) - 1);
          n = length (digits_of_nat s) + j;
          ds = strip_zeros (digits_of_nat s)
      in (if length ds = 1 then ds else take 1 ds @ ''.'' @ drop 1 ds)
         @ ''e+'' @ digits_of_nat (n - 1))"

text \<open>
  \<^verbatim>\<open>Number.prototype.toFixed(3)\<close>: a number that is not finite is written by name; a finite
  one of magnitude \<open>10\<^sup>2\<^sup>1\<close> or more is written by \<^verbatim>\<open>Number::toString\<close>; otherwise \<open>n\<close>
  is the integer for which \<open>n / 1000\<close> is nearest to the magnitude, the larger of two that
  are equally near, and the digits of \<open>n\<close>, filled with zeros to four at least, are written
  with the point before the last three. The sign is written for a negative value, not for
  the negative zero.
\<close>

definition toFixed3 :: "number \<Rightarrow> string" where
  "toFixed3 x =
     (case x of
        NaN \<Rightarrow> ''NaN''
      | Infinity s \<Rightarrow> (if s then ''-Infinity'' else ''Infinity'')
      | Finite s m e \<Rightarrow>
          let sign = (if s \<and> m \<noteq> 0 then ''-'' else []);
              (p, q) = shift_ratio m 1 e
          in if 10 ^ 21 * q \<le> p then sign @ Number_toString_large (p div q)
             else
               let n = (2 * (1000 * p) + q) div (2 * q);
                   ds = digits_of_nat n;
                   ds = (if length ds \<le> 3 then replicate (4 - length ds) (CHR ''0'') @ ds else ds);
                   k = length ds
               in sign @ take (k - 3) ds @ ''.'' @ drop (k - 3) ds)"

subsection \<open>Strings to numbers\<close>

text \<open>
  \<^verbatim>\<open>parseFloat\<close>: leading white space is skipped, then the longest prefix that is a decimal
  literal is read: an optional sign, then \<^verbatim>\<open>Infinity\<close> or digits with an optional point and
  an optional exponent; at least one digit is needed, or the result is not-a-number. The
  value read is rounded to the nearest double.
\<close>

definition parseFloat :: "string \<Rightarrow> number" where
  "parseFloat input =
     (let trimmed = dropWhile is_space input;
          negative = (trimmed \<noteq> [] \<and> hd trimmed = CHR ''-'');
          has_sign = (trimmed \<noteq> [] \<and> (hd trimmed = CHR ''-'' \<or> hd trimmed = CHR ''+''));
          rest = (if has_sign then tl trimmed else trimmed)
      in if take 8 rest = ''Infinity'' then Infinity negative
         else
           let int_digits = takeWhile is_digit rest;
               after_int = dropWhile is_digit rest;
               has_point = (after_int \<noteq> [] \<and> hd after_int = CHR ''.'');
               frac_digits = (if has_point then takeWhile is_digit (tl after_int) else []);
               after_frac = (if has_point then dropWhile is_digit (tl after_int) else after_int);
               has_e = (after_frac \<noteq> [] \<and> (hd after_frac = CHR ''e'' \<or> hd after_frac = CHR ''E''));
               after_e = (if has_e then tl after_frac else []);
               exp_negative = (after_e \<noteq> [] \<and> hd after_e = CHR ''-'');
               exp_sign = (after_e \<noteq> [] \<and> (hd after_e = CHR ''-'' \<or> hd after_e = CHR ''+''));
               exp_digits = takeWhile is_digit (if exp_sign then tl after_e else after_e);
               exponent = (if exp_negative then - int (digits_value exp_digits)
                           else int (digits_value exp_digits));
               mantissa = digits_value (int_digits @ frac_digits);
               x = exponent - int (length frac_digits)
           in if int_digits = [] \<and> frac_digits = [] then NaN
              else if 0 \<le> x then to_double negative (mantissa * 10 ^ nat x) 1
              else to_double negative mantissa (10 ^ nat (- x)))"

section \<open>The token registry and the trades\<close>

record Token =
  address :: string
  symbol :: string
  decimals :: nat
  price :: "number option"

record MultiSwap =
  origin :: string
  token_in :: string
  token_out :: string
  path :: "string list"
  amount_in :: string
  amount_out :: string
  block_num :: nat
  extrinsic_index :: nat

text \<open>
  \<^verbatim>\<open>tokenMap\<close> is a \<^verbatim>\<open>Map<string, Token>\<close>; \<^verbatim>\<open>tokenMap.get\<close> is the application of the map.
  The field \<open>decimals\<close> holds a non-negative integer, as token records do.
\<close>

type_synonym tokenMap = "string \<rightharpoonup> Token"

section \<open>Formatting an amount\<close>

text \<open>
  The remainder of a number without limbs is that number itself, and printing it does not
  end.
\<close>

definition formatAmountWithToken :: "tokenMap \<Rightarrow> string \<Rightarrow> string \<Rightarrow> failure + string" where
  "formatAmountWithToken tokenMap amount addr =
     (case tokenMap addr of
        None \<Rightarrow> Inr amount
      | Some token \<Rightarrow>
          (case BN_of_string amount of
             Inl e \<Rightarrow> Inl e
           | Inr None \<Rightarrow> Inl Hangs
           | Inr (Some bnAmount) \<Rightarrow>
               let divisor = 10 ^ decimals token;
                   integerPart = BN_toString (BN_div bnAmount divisor);
                   fractionalPart =
                     padStart (decimals token) (CHR ''0'') (BN_toString (BN_mod bnAmount divisor));
                   fractionalPart =
                     (if length fractionalPart > 3 then take 3 fractionalPart else fractionalPart)
               in Inr (integerPart @ ''.'' @ fractionalPart @ '' '' @ symbol token)))"

text \<open>A valid amount: a non-empty string of decimal digits.\<close>

definition valid_amount :: "string \<Rightarrow> bool" where
  "valid_amount s \<longleftrightarrow> s \<noteq> [] \<and> list_all is_digit s"

section \<open>The volume of a trade and the total volume\<close>

text \<open>
  \<^verbatim>\<open>tokenIn?.price || 0.0\<close> is \<open>or_zero\<close> of the optional price of the optional token, and
  \<^verbatim>\<open>tokenIn?.decimals || 0\<close> is the number of decimals of the token, or 0 without a token.
  Both amounts are constructed first, so the function throws what either \<^verbatim>\<open>new BN\<close>
  throws; the amounts are printed only after that, which does not end for one without limbs.
\<close>

definition calculateVolume :: "tokenMap \<Rightarrow> MultiSwap \<Rightarrow> failure + string" where
  "calculateVolume tokenMap trade =
     (let tokenIn = tokenMap (token_in trade);
          tokenOut = tokenMap (token_out trade);
          priceIn = or_zero (Option.bind tokenIn price);
          priceOut = or_zero (Option.bind tokenOut price)
      in case BN_of_string (amount_in trade) of
           Inl e \<Rightarrow> Inl e
         | Inr bnIn \<Rightarrow>
             (case BN_of_string (amount_out trade) of
                Inl e \<Rightarrow> Inl e
              | Inr bnOut \<Rightarrow>
                  (case (bnIn, bnOut) of
                     (Some amountIn, Some amountOut) \<Rightarrow>
                       let divisorIn =
                             10 ^ (case tokenIn of None \<Rightarrow> 0 | Some token \<Rightarrow> decimals token);
                           divisorOut =
                             10 ^ (case tokenOut of None \<Rightarrow> 0 | Some token \<Rightarrow> decimals token);
                           humanAmountInFloat =
                             fdiv (parseFloat (BN_toString amountIn))
                                  (parseFloat (BN_toString divisorIn));
                           humanAmountOutFloat =
                             fdiv (parseFloat (BN_toString amountOut))
                                  (parseFloat (BN_toString divisorOut));
                           valueIn = fmul humanAmountInFloat priceIn;
                           valueOut = fmul humanAmountOutFloat priceOut;
                           volume = Math_max valueIn valueOut
                       in Inr (toFixed3 volume)
                   | _ \<Rightarrow> Inl Hangs)))"

text \<open>
  \<^verbatim>\<open>trades.reduce((acc, trade) => acc + parseFloat(calculateVolume(trade)), 0)\<close>: the fold
  from the left, which an exception of \<^verbatim>\<open>calculateVolume\<close> leaves at once, since nothing
  catches it.
\<close>

fun reduce_volume :: "tokenMap \<Rightarrow> number \<Rightarrow> MultiSwap list \<Rightarrow> failure + number" where
  "reduce_volume tokenMap acc [] = Inr acc"
| "reduce_volume tokenMap acc (trade # trades) =
     (case calculateVolume tokenMap trade of
        Inl e \<Rightarrow> Inl e
      | Inr volume \<Rightarrow> reduce_volume tokenMap (fadd acc (parseFloat volume)) trades)"

definition calculateTotalVolume :: "tokenMap \<Rightarrow> MultiSwap list \<Rightarrow> failure + number" where
  "calculateTotalVolume tokenMap trades = reduce_volume tokenMap zero trades"

text \<open>The total as the page shows it: \<^verbatim>\<open>totalVolume.toFixed(3)\<close>.\<close>

definition totalVolumeText :: "tokenMap \<Rightarrow> MultiSwap list \<Rightarrow> failure + string" where
  "totalVolumeText tokenMap trades =
     (case calculateTotalVolume tokenMap trades of
        Inl e \<Rightarrow> Inl e
      | Inr totalVolume \<Rightarrow> Inr (toFixed3 totalVolume))"

text \<open>
  The total volume in the words of the specification: the volumes of the trades, each
  already rounded to three decimals, are parsed back to numbers and summed by floating-point
  addition from 0, and the sum is rendered to three decimals.
\<close>

definition spec_total_volume :: "string list \<Rightarrow> string" where
  "spec_total_volume volumes = toFixed3 (foldl fadd zero (map parseFloat volumes))"

text \<open>The magnitude \<open>m * 2\<^sup>e\<close> of a finite number, as a real.\<close>

definition magnitude :: "nat \<Rightarrow> int \<Rightarrow> real" where
  "magnitude m e = real m * 2 powi e"

text \<open>
  The value of one leg in the words of the specification: the human amount, which is the
  raw amount divided by \<open>10\<^sup>d\<close> for the token's decimals \<open>d\<close> (0 without a token), both
  taken as numbers, times the price, a missing price being 0.
\<close>

definition spec_leg_value :: "Token option \<Rightarrow> nat \<Rightarrow> number" where
  "spec_leg_value token raw =
     fmul (fdiv (to_double False raw 1)
                (to_double False (10 ^ (case token of None \<Rightarrow> 0 | Some t \<Rightarrow> decimals t)) 1))
          (or_zero (Option.bind token price))"

section \<open>Example data\<close>

text \<open>
  A registry of five tokens: AZERO with 12 decimals and the price 2.5, USDT with 6 decimals
  and the price 1, a token with no decimals and one with 4 decimals, both with the price 1,
  and a token with no decimals and no price. The prices are the doubles \<open>1.25 * 2\<close> and
  \<open>1\<close>.
\<close>

definition example_tokens :: tokenMap where
  "example_tokens =
     [''5A'' \<mapsto> \<lparr>address = ''5A'', symbol = ''AZERO'', decimals = 12,
                  price = Some (Finite False 5629499534213120 (- 51))\<rparr>,
      ''5B'' \<mapsto> \<lparr>address = ''5B'', symbol = ''USDT'', decimals = 6,
                  price = Some (Finite False 4503599627370496 (- 52))\<rparr>,
      ''5C'' \<mapsto> \<lparr>address = ''5C'', symbol = ''UNIT'', decimals = 0,
                  price = Some (Finite False 4503599627370496 (- 52))\<rparr>,
      ''5D'' \<mapsto> \<lparr>address = ''5D'', symbol = ''CENT'', decimals = 4,
                  price = Some (Finite False 4503599627370496 (- 52))\<rparr>,
      ''5E'' \<mapsto> \<lparr>address = ''5E'', symbol = ''NEW'', decimals = 0, price = None\<rparr>]"

definition example_trade :: "string \<Rightarrow> string \<Rightarrow> string \<Rightarrow> string \<Rightarrow> MultiSwap" where
  "example_trade tokenIn amountIn tokenOut amountOut =
     \<lparr>origin = ''5O'', token_in = tokenIn, token_out = tokenOut, path = [tokenIn, tokenOut],
      amount_in = amountIn, amount_out = amountOut, block_num = 1, extrinsic_index = 0\<rparr>"

section \<open>Properties of digit strings and of the big integers\<close>

lemma digit_val_digit_char: "d < 10 \<Longrightarrow> digit_val (digit_char d) = d"
  by (simp add: digit_val_def digit_char_def)

lemma is_digit_digit_char: "d < 10 \<Longrightarrow> is_digit (digit_char d)"
  by (simp add: is_digit_def digit_char_def)

lemma digit_char_digit_val: "is_digit c \<Longrightarrow> digit_char (digit_val c) = c"
  by (simp add: is_digit_def digit_char_def digit_val_def)

lemma digit_val_less: "is_digit c \<Longrightarrow> digit_val c < 10"
  by (auto simp add: is_digit_def digit_val_def)

lemma digits_of_nat_all_digits: "list_all is_digit (digits_of_nat n)"
  by (induction n rule: digits_of_nat.induct)
     (subst digits_of_nat.simps, simp add: is_digit_digit_char)

lemma digits_of_nat_nonempty: "digits_of_nat n \<noteq> []"
  by (subst digits_of_nat.simps) simp

lemma digits_value_snoc: "digits_value (xs @ [c]) = digits_value xs * 10 + digit_val c"
  by (simp add: digits_value_def)

lemma digits_value_digits_of_nat: "digits_value (digits_of_nat n) = n"
proof (induction n rule: digits_of_nat.induct)
  case (1 n)
  show ?case
  proof (cases "n < 10")
    case True
    then show ?thesis
      by (subst digits_of_nat.simps) (simp add: digits_value_def digit_val_digit_char)
  next
    case False
    with 1 have "digits_value (digits_of_nat (n div 10)) = n div 10" by simp
    with False show ?thesis
      by (subst digits_of_nat.simps) (simp add: digits_value_snoc digit_val_digit_char)
  qed
qed

lemma length_digits_of_nat: "0 < d \<Longrightarrow> n < 10 ^ d \<Longrightarrow> length (digits_of_nat n) \<le> d"
proof (induction n arbitrary: d rule: digits_of_nat.induct)
  case (1 n)
  show ?case
  proof (cases "n < 10")
    case True
    with 1(2) show ?thesis by (subst digits_of_nat.simps) simp
  next
    case False
    then obtain d' where d: "d = Suc d'" using 1(2) by (cases d) auto
    have "d' \<noteq> 0" using False 1(3) d by (cases d') auto
    moreover have "n div 10 < 10 ^ d'" using 1(3) d by (simp add: less_mult_imp_div_less mult.commute)
    ultimately have "length (digits_of_nat (n div 10)) \<le> d'" using 1(1) False by simp
    with False d show ?thesis by (subst digits_of_nat.simps) simp
  qed
qed

lemma is_digit_not_space: "is_digit c \<Longrightarrow> \<not> is_space c"
  by (auto simp add: is_digit_def is_space_def)

lemma is_digit_not_minus: "is_digit c \<Longrightarrow> c \<noteq> CHR ''-''"
  by (auto simp add: is_digit_def)

lemma is_digit_not_dot: "is_digit c \<Longrightarrow> c \<noteq> CHR ''.''"
  by (auto simp add: is_digit_def)

lemma filter_digits: "list_all is_digit s \<Longrightarrow> filter (\<lambda>c. \<not> is_space c) s = s"
  by (induction s) (auto simp add: is_digit_not_space)

lemma BN_toString_nat: "BN_toString (int n) = digits_of_nat n"
  by (simp add: BN_toString_def)

lemma BN_div_nat: "BN_div (int a) (10 ^ d) = int (a div 10 ^ d)"
  by (cases "a = 0") (simp_all add: BN_div_def zdiv_int)

lemma BN_mod_nat: "BN_mod (int a) (10 ^ d) = int (a mod 10 ^ d)"
  by (cases "a = 0") (simp_all add: BN_mod_def zmod_int)

lemma digit_char_eval:
  "digit_char 0 = CHR ''0''" "digit_char 1 = CHR ''1''" "digit_char 2 = CHR ''2''"
  "digit_char 3 = CHR ''3''" "digit_char 4 = CHR ''4''" "digit_char 5 = CHR ''5''"
  "digit_char 6 = CHR ''6''" "digit_char 7 = CHR ''7''" "digit_char 8 = CHR ''8''"
  "digit_char 9 = CHR ''9''" "digit_char (Suc 0) = CHR ''1''"
  by code_simp+

lemma is_digit_zero: "is_digit (CHR ''0'')"
  by (simp add: is_digit_def)

lemma digits_value_zeros: "digits_value (replicate k (CHR ''0'') @ s) = digits_value s"
proof -
  have "foldl (\<lambda>r c. r * 10 + digit_val c) 0 (replicate k (CHR ''0'')) = 0"
    by (induction k) (simp_all add: digit_val_def)
  then show ?thesis by (simp add: digits_value_def)
qed

lemma digits_value_append:
  "digits_value (xs @ ys) = digits_value xs * 10 ^ length ys + digits_value ys"
proof (induction ys rule: rev_induct)
  case Nil
  show ?case by (simp add: digits_value_def)
next
  case (snoc c ys)
  have "digits_value (xs @ ys @ [c]) = digits_value (xs @ ys) * 10 + digit_val c"
    using digits_value_snoc [of "xs @ ys" c] by simp
  with snoc show ?case by (simp add: digits_value_snoc algebra_simps)
qed

lemma digits_value_less: "list_all is_digit s \<Longrightarrow> digits_value s < 10 ^ length s"
proof (induction s rule: rev_induct)
  case Nil
  show ?case by (simp add: digits_value_def)
next
  case (snoc c s)
  then have "digits_value s < 10 ^ length s" and "digit_val c < 10"
    by (simp_all add: digit_val_less)
  then have "digits_value s * 10 + digit_val c < 10 ^ length s * 10" by arith
  then show ?case by (simp add: digits_value_snoc)
qed

lemma digits_value_take:
  assumes "list_all is_digit p"
  shows "digits_value (take k p) = digits_value p div 10 ^ (length p - k)"
proof -
  have all: "list_all is_digit (drop k p)"
    using assms by (simp add: list_all_iff) (meson in_set_dropD)
  have "digits_value p = digits_value (take k p) * 10 ^ length (drop k p) + digits_value (drop k p)"
    using digits_value_append [of "take k p" "drop k p"] by simp
  moreover have "digits_value (drop k p) < 10 ^ length (drop k p)"
    using all by (rule digits_value_less)
  ultimately show ?thesis by simp
qed

lemma padded_remainder:
  assumes "0 < d"
  shows "length (padStart d (CHR ''0'') (digits_of_nat (a mod 10 ^ d))) = d"
    and "list_all is_digit (padStart d (CHR ''0'') (digits_of_nat (a mod 10 ^ d)))"
    and "digits_value (padStart d (CHR ''0'') (digits_of_nat (a mod 10 ^ d))) = a mod 10 ^ d"
proof -
  have "length (digits_of_nat (a mod 10 ^ d)) \<le> d"
    using assms by (intro length_digits_of_nat) simp_all
  then show "length (padStart d (CHR ''0'') (digits_of_nat (a mod 10 ^ d))) = d"
    by (simp add: padStart_def)
  show "list_all is_digit (padStart d (CHR ''0'') (digits_of_nat (a mod 10 ^ d)))"
    using digits_of_nat_all_digits [of "a mod 10 ^ d"]
    by (auto simp add: padStart_def list_all_iff is_digit_zero)
  show "digits_value (padStart d (CHR ''0'') (digits_of_nat (a mod 10 ^ d))) = a mod 10 ^ d"
    by (simp add: padStart_def digits_value_zeros digits_value_digits_of_nat)
qed

lemma takeWhile_integer_part:
  "list_all is_digit ds \<Longrightarrow> takeWhile (\<lambda>c. c \<noteq> CHR ''.'') (ds @ CHR ''.'' # rest) = ds"
  by (induction ds) (auto simp add: is_digit_not_dot)

lemma BN_of_string_bad_char:
  assumes "c \<in> set raw" and "\<not> is_digit c" and "\<not> is_space c" and "c \<noteq> CHR ''-''"
  shows "BN_of_string raw = Inl ParseError"
proof -
  define stripped where "stripped = filter (\<lambda>c. \<not> is_space c) raw"
  define body where "body = (if stripped \<noteq> [] \<and> hd stripped = CHR ''-'' then tl stripped else stripped)"
  have c: "c \<in> set stripped" using assms by (simp add: stripped_def)
  then have "c \<in> set body"
    using assms(4) by (cases stripped) (auto simp add: body_def)
  then have "body \<noteq> []" and "\<not> list_all is_digit body"
    using assms(2) by (auto simp add: list_all_iff)
  moreover have "raw \<noteq> []" using assms(1) by auto
  ultimately show ?thesis
    by (simp add: BN_of_string_def Let_def flip: stripped_def body_def)
qed

lemma canonical_digits:
  assumes "valid_amount s" and "s = ''0'' \<or> hd s \<noteq> CHR ''0''"
  shows "digits_of_nat (digits_value s) = s"
  using assms
proof (induction s rule: rev_induct)
  case Nil
  then show ?case by (simp add: valid_amount_def)
next
  case (snoc c s)
  then have c: "is_digit c" and s: "list_all is_digit s" by (simp_all add: valid_amount_def)
  show ?case
  proof (cases "s = []")
    case True
    then show ?thesis using c
      by (subst digits_of_nat.simps) (simp add: digits_value_def digit_val_less digit_char_digit_val)
  next
    case False
    then have h: "hd s \<noteq> CHR ''0''" using snoc(3) by (cases s) auto
    then have "digits_of_nat (digits_value s) = s"
      using snoc(1) False s by (simp add: valid_amount_def)
    moreover have "digits_value s \<noteq> 0"
    proof
      assume "digits_value s = 0"
      then have "digits_of_nat (digits_value s) = ''0''"
        by (subst digits_of_nat.simps) (simp add: digit_char_eval)
      then show False using \<open>digits_of_nat (digits_value s) = s\<close> h by simp
    qed
    ultimately show ?thesis using c
      by (subst digits_of_nat.simps) (simp add: digits_value_snoc digit_val_less digit_char_digit_val)
  qed
qed

lemma BN_of_string_valid: "valid_amount s \<Longrightarrow> BN_of_string s = Inr (Some (int (digits_value s)))"
  by (cases s) (auto simp add: valid_amount_def BN_of_string_def filter_digits Let_def is_digit_not_minus is_digit_not_space)

lemma BN_of_string_minus:
  assumes "valid_amount body"
  shows "BN_of_string (CHR ''-'' # body) = Inr (Some (- int (digits_value body)))"
proof -
  have "\<not> is_space (CHR ''-'')" by (simp add: is_space_def)
  then show ?thesis using assms
    by (simp add: BN_of_string_def valid_amount_def filter_digits Let_def)
qed

lemma BN_of_string_error_iff:
  "BN_of_string raw = Inl ParseError \<longleftrightarrow>
     (\<exists>c \<in> set (let stripped = filter (\<lambda>c. \<not> is_space c) raw
                 in if stripped \<noteq> [] \<and> hd stripped = CHR ''-'' then tl stripped else stripped).
        \<not> is_digit c)"
  by (auto simp add: BN_of_string_def Let_def list_all_iff)

lemma BN_of_string_not_hangs: "BN_of_string raw \<noteq> Inl Hangs"
  by (simp add: BN_of_string_def Let_def)

lemma BN_of_string_minus_inside:
  assumes "raw = before @ CHR ''-'' # rest" and "d \<in> set before" and "\<not> is_space d"
  shows "BN_of_string raw = Inl ParseError"
proof -
  define stripped where "stripped = filter (\<lambda>c. \<not> is_space c) raw"
  define front where "front = filter (\<lambda>c. \<not> is_space c) before"
  have m: "\<not> is_space (CHR ''-'')" "\<not> is_digit (CHR ''-'')"
    by (simp_all add: is_space_def is_digit_def)
  have front: "front \<noteq> []"
    using assms(2,3) by (auto simp add: front_def filter_empty_conv)
  have s: "stripped = front @ CHR ''-'' # filter (\<lambda>c. \<not> is_space c) rest"
    using m by (simp add: stripped_def front_def assms(1))
  have "CHR ''-'' \<in> set (if stripped \<noteq> [] \<and> hd stripped = CHR ''-'' then tl stripped else stripped)"
    using front by (cases front) (simp_all add: s)
  then show ?thesis
    unfolding BN_of_string_error_iff Let_def stripped_def [symmetric] using m(2) by blast
qed

lemma BN_of_string_strip:
  assumes "filter (\<lambda>c. \<not> is_space c) raw \<noteq> []"
  shows "BN_of_string raw = BN_of_string (filter (\<lambda>c. \<not> is_space c) raw)"
proof -
  have "raw \<noteq> []" using assms by auto
  then show ?thesis using assms by (simp add: BN_of_string_def)
qed

lemma BN_div_neg: "BN_div (- int a) (10 ^ d) = - int (a div 10 ^ d)"
  by (cases "a = 0") (simp_all add: BN_div_def zdiv_int)

lemma BN_mod_neg: "BN_mod (- int a) (10 ^ d) = - int (a mod 10 ^ d)"
  by (cases "a = 0") (simp_all add: BN_mod_def zmod_int)

lemma formatAmountWithToken_minus:
  assumes "valid_amount body" and "tokenMap addr = Some token"
  shows "formatAmountWithToken tokenMap (CHR ''-'' # body) addr =
    Inr (BN_toString (- int (digits_value body div 10 ^ decimals token)) @ ''.'' @
         take 3 (padStart (decimals token) (CHR ''0'')
                   (BN_toString (- int (digits_value body mod 10 ^ decimals token))))
         @ '' '' @ symbol token)"
  using assms
  by (simp add: formatAmountWithToken_def BN_of_string_minus BN_div_neg BN_mod_neg Let_def
        del: of_nat_power of_nat_numeral)

lemma formatAmountWithToken_valid:
  assumes "valid_amount s" and "tokenMap addr = Some token"
  shows "formatAmountWithToken tokenMap s addr =
    Inr (digits_of_nat (digits_value s div 10 ^ decimals token) @ ''.'' @
         take 3 (padStart (decimals token) (CHR ''0'') (digits_of_nat (digits_value s mod 10 ^ decimals token)))
         @ '' '' @ symbol token)"
  using assms
  by (simp add: formatAmountWithToken_def BN_of_string_valid BN_div_nat BN_mod_nat BN_toString_nat Let_def
        del: of_nat_power of_nat_numeral)

lemma format_examples_18:
  assumes "tokenMap addr = Some token" and "decimals token = 18"
  shows "formatAmountWithToken tokenMap ''1'' addr = Inr (''0.000 '' @ symbol token)"
    and "formatAmountWithToken tokenMap ''1000000000000000000'' addr = Inr (''1.000 '' @ symbol token)"
proof -
  have v: "valid_amount ''1''" "valid_amount ''1000000000000000000''"
    by (simp_all add: valid_amount_def is_digit_def)
  have d: "digits_value ''1'' = 1" "digits_value ''1000000000000000000'' = 1000000000000000000"
    by (simp_all add: digits_value_def digit_val_def)
  have e: "digits_of_nat 0 = ''0''" "digits_of_nat (Suc 0) = ''1''"
    by (simp_all add: digits_of_nat.simps digit_char_eval)
  have r: "replicate 3 (CHR ''0'') = ''000''"
    by (simp add: numeral_3_eq_3)
  show "formatAmountWithToken tokenMap ''1'' addr = Inr (''0.000 '' @ symbol token)"
    using formatAmountWithToken_valid [of "''1''" tokenMap addr token] v(1) assms
    by (simp add: d e r padStart_def)
  show "formatAmountWithToken tokenMap ''1000000000000000000'' addr = Inr (''1.000 '' @ symbol token)"
    using formatAmountWithToken_valid [of "''1000000000000000000''" tokenMap addr token] v(2) assms
    by (simp add: d e r padStart_def)
qed

section \<open>Properties of the numbers\<close>

lemma bit_length_pos: "0 < n \<Longrightarrow> 0 < bit_length n"
  by (subst bit_length.simps) simp

lemma bit_length_bounds: "0 < n \<Longrightarrow> 2 ^ (bit_length n - 1) \<le> n \<and> n < 2 ^ bit_length n"
proof (induction n rule: bit_length.induct)
  case (1 n)
  have bl: "bit_length n = Suc (bit_length (n div 2))"
    using 1(2) by (subst bit_length.simps) simp
  show ?case
  proof (cases "n div 2 = 0")
    case True
    then have "n = 1" using 1(2) by (simp add: div_eq_0_iff)
    then show ?thesis by (simp add: bit_length.simps)
  next
    case False
    then have IH: "2 ^ (bit_length (n div 2) - 1) \<le> n div 2" "n div 2 < 2 ^ bit_length (n div 2)"
      using 1 by simp_all
    have pos: "bit_length (n div 2) = Suc (bit_length (n div 2) - 1)"
      using False bit_length_pos [of "n div 2"] by simp
    have "2 ^ bit_length (n div 2) \<le> 2 * (n div 2)"
      using IH(1) by (subst pos) simp
    moreover have "n < 2 * 2 ^ bit_length (n div 2)"
      using IH(2) by linarith
    ultimately show ?thesis by (simp add: bl)
  qed
qed

lemma shift_ratio_value:
  assumes "shift_ratio a b k = (p, q)" and "0 < b"
  shows "0 < q" and "real p / real q = real a / real b * 2 powi k"
  using assms
  by (auto simp add: shift_ratio_def power_int_def power_inverse divide_simps split: if_splits)

lemma floor_log2_bounds:
  assumes "0 < a" and "0 < b"
  shows "2 powi floor_log2 a b \<le> real a / real b"
    and "real a / real b < 2 powi (floor_log2 a b + 1)"
proof -
  define k where "k = int (bit_length a) - int (bit_length b)"
  obtain p q where pq: "shift_ratio a b (- k) = (p, q)" by (cases "shift_ratio a b (- k)")
  have q: "0 < q" and v: "real p / real q = real a / real b * 2 powi (- k)"
    using shift_ratio_value [OF pq assms(2)] by simp_all
  have fl: "floor_log2 a b = (if q \<le> p then k else k - 1)"
    by (simp add: floor_log2_def Let_def pq flip: k_def)
  have la: "bit_length a = Suc (bit_length a - 1)" and lb: "bit_length b = Suc (bit_length b - 1)"
    using assms bit_length_pos [of a] bit_length_pos [of b] by simp_all
  have a1: "2 ^ (bit_length a - 1) \<le> real a" and a2: "real a < 2 ^ bit_length a"
    using bit_length_bounds [OF assms(1)] by (metis of_nat_le_iff of_nat_numeral of_nat_power, metis of_nat_less_iff of_nat_numeral of_nat_power)
  have b1: "2 ^ (bit_length b - 1) \<le> real b" and b2: "real b < 2 ^ bit_length b"
    using bit_length_bounds [OF assms(2)] by (metis of_nat_le_iff of_nat_numeral of_nat_power, metis of_nat_less_iff of_nat_numeral of_nat_power)
  have rb: "0 < real b" using assms by simp
  have up: "real a / real b < 2 powi (k + 1)"
  proof -
    have "real a / real b < 2 ^ bit_length a / 2 ^ (bit_length b - 1)"
      using a2 b1 rb by (intro frac_less) simp_all
    also have "\<dots> = 2 powi (int (bit_length a) - int (bit_length b - 1))"
      by (simp add: power_int_diff)
    also have "int (bit_length a) - int (bit_length b - 1) = k + 1"
      using lb by (simp add: k_def)
    finally show ?thesis .
  qed
  have lo: "2 powi (k - 1) < real a / real b"
  proof -
    have "2 ^ (bit_length a - 1) / 2 ^ bit_length b < real a / real b"
      using a1 b2 rb assms by (intro frac_less2) simp_all
    moreover have "2 ^ (bit_length a - 1) / 2 ^ bit_length b = (2::real) powi (int (bit_length a - 1) - int (bit_length b))"
      by (simp add: power_int_diff)
    moreover have "int (bit_length a - 1) - int (bit_length b) = k - 1"
      using la by (simp add: k_def)
    ultimately show ?thesis by simp
  qed
  have v': "real p / real q = real a / real b / 2 powi k"
    unfolding v by (simp add: power_int_minus divide_inverse)
  have iff: "q \<le> p \<longleftrightarrow> 2 powi k \<le> real a / real b"
  proof -
    have "q \<le> p \<longleftrightarrow> 1 \<le> real p / real q" using q by simp
    also have "\<dots> \<longleftrightarrow> 2 powi k \<le> real a / real b"
      unfolding v' by (subst le_divide_eq) simp
    finally show ?thesis .
  qed
  show "2 powi floor_log2 a b \<le> real a / real b"
    using iff lo by (simp add: fl)
  show "real a / real b < 2 powi (floor_log2 a b + 1)"
    using iff up by (simp add: fl)
qed

lemma round_half_even_near:
  assumes "0 < q"
  shows "\<bar>real (round_half_even p q) - real p / real q\<bar> \<le> 1 / 2"
proof -
  define n r where "n = p div q" and "r = p mod q"
  have p: "real p = real q * real n + real r"
    unfolding n_def r_def by (metis mult_div_mod_eq of_nat_add of_nat_mult)
  have r: "real r < real q" using assms by (simp add: r_def)
  have q: "0 < real q" using assms by simp
  have v: "real p / real q = real n + real r / real q"
    using q by (simp add: p field_simps)
  have "round_half_even p q = n \<and> 2 * r \<le> q \<or> round_half_even p q = n + 1 \<and> q \<le> 2 * r"
    by (auto simp add: round_half_even_def Let_def simp flip: n_def r_def)
  then show ?thesis
  proof
    assume h: "round_half_even p q = n \<and> 2 * r \<le> q"
    then have "real (2 * r) \<le> real q" by (simp only: of_nat_le_iff)
    then have "real r / real q \<le> 1 / 2" using q by (simp add: field_simps)
    then show ?thesis using h v q by (simp add: abs_if field_simps)
  next
    assume h: "round_half_even p q = n + 1 \<and> q \<le> 2 * r"
    then have "real q \<le> real (2 * r)" by (simp only: of_nat_le_iff)
    then have "1 / 2 \<le> real r / real q" using q by (simp add: field_simps)
    moreover have "real r / real q < 1" using r q by simp
    ultimately show ?thesis using h v by (simp add: abs_if)
  qed
qed

lemma to_double_zero: "to_double s 0 b = Finite s 0 (- 1074)"
  by (simp add: to_double_def)

lemma to_double_unfold:
  assumes "a \<noteq> 0" and "E = max (floor_log2 a b - 52) (- 1074)"
    and "shift_ratio a b (- E) = (p, q)" and "n = round_half_even p q"
  shows "to_double s a b =
    (if n = 2 ^ 53 then (if 971 < E + 1 then Infinity s else Finite s (2 ^ 52) (E + 1))
     else (if 971 < E then Infinity s else Finite s n E))"
proof -
  have "to_double s a b =
     (let (m, e') = (if n = 2 ^ 53 then (2 ^ 52, E + 1) else (n, E))
      in if 971 < e' then Infinity s else Finite s m e')"
    using assms(1,3) unfolding to_double_def assms(2,4) by (simp add: Let_def)
  then show ?thesis by (simp split: if_splits)
qed

lemma fl_upper:
  assumes "0 < a" "0 < b" and "real a / real b < 2 ^ 1024"
  shows "floor_log2 a b < 1024"
proof -
  have lo: "2 powi floor_log2 a b \<le> real a / real b"
    using floor_log2_bounds [OF assms(1,2)] by simp
  then have "2 powi floor_log2 a b < (2::real) powi 1024"
    using assms(3) by simp
  then show "floor_log2 a b < 1024"
    by (rule power_int_le_imp_less_exp [rotated]) simp_all
qed

lemma ratio_upper:
  assumes "0 < a" "0 < b" and "E = max (floor_log2 a b - 52) (- 1074)"
    and "shift_ratio a b (- E) = (p, q)"
  shows "real p / real q < 2 ^ 53"
proof -
  have v: "real p / real q = real a / real b * 2 powi (- E)"
    using shift_ratio_value [OF assms(4,2)] by simp
  have up: "real a / real b < 2 powi (floor_log2 a b + 1)"
    using floor_log2_bounds [OF assms(1,2)] by simp
  have "real p / real q < 2 powi (floor_log2 a b + 1) * 2 powi (- E)"
    unfolding v using up by (intro mult_strict_right_mono) simp_all
  also have "\<dots> = 2 powi (floor_log2 a b + 1 - E)"
    by (simp add: power_int_diff power_int_minus divide_inverse)
  also have "\<dots> \<le> 2 powi 53"
    by (intro power_int_increasing) (simp_all add: assms(3))
  finally show ?thesis by simp
qed

lemma round_upper:
  assumes "0 < q" and "real p / real q < real N"
  shows "round_half_even p q \<le> N"
proof -
  have "\<bar>real (round_half_even p q) - real p / real q\<bar> \<le> 1 / 2"
    using assms(1) by (rule round_half_even_near)
  then have "real (round_half_even p q) - real p / real q \<le> 1 / 2"
    by (rule abs_le_D1)
  then have "real (round_half_even p q) < real N + 1"
    using assms(2) by linarith
  then have "real (round_half_even p q) < real (N + 1)" by simp
  then have "round_half_even p q < N + 1" by (simp only: of_nat_less_iff)
  then show ?thesis by simp
qed

lemma round_upper_half:
  assumes "0 < q" and "real p / real q < real N - 1 / 2"
  shows "round_half_even p q < N"
proof -
  have "\<bar>real (round_half_even p q) - real p / real q\<bar> \<le> 1 / 2"
    using assms(1) by (rule round_half_even_near)
  then have "real (round_half_even p q) - real p / real q \<le> 1 / 2"
    by (rule abs_le_D1)
  then have "real (round_half_even p q) < real N"
    using assms(2) by linarith
  then show ?thesis by (simp only: of_nat_less_iff)
qed

lemma to_double_finite:
  assumes "0 < b" and "real a / real b < 2 ^ 1024 - 2 ^ 970"
  shows "\<exists>m e. to_double s a b = Finite s m e \<and> m < 2 ^ 53 \<and> e \<le> 971"
proof (cases "a = 0")
  case True
  then show ?thesis by (simp add: to_double_def)
next
  case False
  define E where "E = max (floor_log2 a b - 52) (- 1074)"
  obtain p q where pq: "shift_ratio a b (- E) = (p, q)" by (cases "shift_ratio a b (- E)")
  define n where "n = round_half_even p q"
  have q: "0 < q" and v: "real p / real q = real a / real b * 2 powi (- E)"
    using shift_ratio_value [OF pq assms(1)] by simp_all
  have td: "to_double s a b =
    (if n = 2 ^ 53 then (if 971 < E + 1 then Infinity s else Finite s (2 ^ 52) (E + 1))
     else (if 971 < E then Infinity s else Finite s n E))"
    using False E_def pq n_def by (rule to_double_unfold)
  have a: "0 < a" using False by simp
  have "real a / real b < 2 ^ 1024" using assms(2) by simp
  then have "floor_log2 a b < 1024" by (rule fl_upper [OF a assms(1)])
  then have E: "E \<le> 971" by (simp add: E_def)
  have "real p / real q < 2 ^ 53" using a assms(1) E_def pq by (rule ratio_upper)
  then have "real p / real q < real (2 ^ 53)" by simp
  then have n_le: "n \<le> 2 ^ 53" unfolding n_def by (rule round_upper [OF q])
  have top: "n < 2 ^ 53" if "E = 971"
  proof -
    have e: "(2::real) powi (- E) = 1 / 2 ^ 971"
      unfolding that by (simp add: power_int_minus_divide)
    have "real p / real q = real a / real b * (1 / 2 ^ 971)"
      by (simp only: v e)
    also have "\<dots> < (2 ^ 1024 - 2 ^ 970) * (1 / 2 ^ 971)"
      using assms(2) by (rule mult_strict_right_mono) simp
    also have "\<dots> = real (2 ^ 53) - 1 / 2" by simp
    finally show ?thesis unfolding n_def by (rule round_upper_half [OF q])
  qed
  show ?thesis
  proof (cases "n = 2 ^ 53")
    case True
    then have "E \<noteq> 971" using top by auto
    then have "E \<le> 970" using E by simp
    then show ?thesis using True by (simp add: td)
  next
    case False
    then have "n < 2 ^ 53" using n_le by simp
    then show ?thesis using False E by (simp add: td)
  qed
qed

lemma to_double_overflow:
  assumes "0 < b" and "2 ^ 1024 \<le> real a / real b"
  shows "to_double s a b = Infinity s"
proof -
  have "(0::real) < 2 ^ 1024" by simp
  then have "0 < real a / real b" using assms(2) by (rule less_le_trans)
  then have a: "0 < a" using assms(1) by (simp add: zero_less_divide_iff)
  define E where "E = max (floor_log2 a b - 52) (- 1074)"
  obtain p q where pq: "shift_ratio a b (- E) = (p, q)" by (cases "shift_ratio a b (- E)")
  define n where "n = round_half_even p q"
  have "a \<noteq> 0" using a by simp
  then have td: "to_double s a b =
    (if n = 2 ^ 53 then (if 971 < E + 1 then Infinity s else Finite s (2 ^ 52) (E + 1))
     else (if 971 < E then Infinity s else Finite s n E))"
    using E_def pq n_def by (rule to_double_unfold)
  have up: "real a / real b < 2 powi (floor_log2 a b + 1)"
    using floor_log2_bounds [OF a assms(1)] by simp
  have "1024 < floor_log2 a b + 1"
  proof (rule ccontr)
    assume "\<not> 1024 < floor_log2 a b + 1"
    then have "(2::real) powi (floor_log2 a b + 1) \<le> 2 powi 1024"
      by (intro power_int_increasing) simp_all
    then have "(2::real) powi (floor_log2 a b + 1) \<le> 2 ^ 1024" by simp
    then have "(2::real) powi (floor_log2 a b + 1) \<le> real a / real b"
      using assms(2) by (rule order_trans)
    then have "\<not> real a / real b < 2 powi (floor_log2 a b + 1)" by (rule leD)
    then show False using up by blast
  qed
  then have "971 < E" by (simp add: E_def)
  then show ?thesis by (simp add: td)
qed

lemma parseFloat_valid:
  assumes "valid_amount s"
  shows "parseFloat s = to_double False (digits_value s) 1"
proof -
  obtain c cs where s: "s = c # cs" and c: "is_digit c" and all: "list_all is_digit s"
    using assms by (cases s) (auto simp add: valid_amount_def)
  have c1: "\<not> is_space c" "c \<noteq> CHR ''-''" "c \<noteq> CHR ''+''" "c \<noteq> CHR ''I''"
    using c by (auto simp add: is_digit_def is_space_def)
  have t: "dropWhile is_space s = s" using c1 by (simp add: s)
  have i: "take 8 s \<noteq> ''Infinity''" using c1 by (simp add: s)
  have d: "takeWhile is_digit s = s" "dropWhile is_digit s = []"
    using all by (simp_all add: list_all_iff takeWhile_eq_all_conv dropWhile_eq_Nil_conv)
  have h: "hd s = c" "s \<noteq> []" by (simp_all add: s)
  show ?thesis
    using c1 by (simp add: parseFloat_def t i d h Let_def digits_value_def)
qed

lemma parseFloat_BN:
  "parseFloat (BN_toString (int n)) = to_double False n 1"
proof -
  have "valid_amount (digits_of_nat n)"
    by (simp add: valid_amount_def digits_of_nat_all_digits digits_of_nat_nonempty)
  then show ?thesis
    by (simp add: BN_toString_nat parseFloat_valid digits_value_digits_of_nat)
qed

lemma calculateVolume_valid:
  assumes "valid_amount (amount_in trade)" and "valid_amount (amount_out trade)"
  shows "calculateVolume tokenMap trade =
    Inr (toFixed3 (Math_max
      (spec_leg_value (tokenMap (token_in trade)) (digits_value (amount_in trade)))
      (spec_leg_value (tokenMap (token_out trade)) (digits_value (amount_out trade)))))"
proof -
  have p: "parseFloat (BN_toString (10 ^ d)) = to_double False (10 ^ d) 1" for d
    using parseFloat_BN [of "10 ^ d"] by simp
  show ?thesis
    using assms
    by (simp add: calculateVolume_def BN_of_string_valid parseFloat_BN p spec_leg_value_def
        Let_def del: of_nat_power)
qed

lemma digits_of_nat_step: "10 \<le> n \<Longrightarrow> digits_of_nat n = digits_of_nat (n div 10) @ [digit_char (n mod 10)]"
  by (subst digits_of_nat.simps) simp

lemma digits_of_nat_small: "n < 10 \<Longrightarrow> digits_of_nat n = [digit_char n]"
  by (subst digits_of_nat.simps) simp

lemma digits_last3:
  assumes "1000 \<le> n"
  shows "digits_of_nat n =
    digits_of_nat (n div 1000) @
    [digit_char (n div 100 mod 10), digit_char (n div 10 mod 10), digit_char (n mod 10)]"
proof -
  have "digits_of_nat n = digits_of_nat (n div 10) @ [digit_char (n mod 10)]"
    using assms by (intro digits_of_nat_step) simp
  moreover have "digits_of_nat (n div 10) = digits_of_nat (n div 10 div 10) @ [digit_char (n div 10 mod 10)]"
    using assms by (intro digits_of_nat_step) simp
  moreover have "digits_of_nat (n div 10 div 10) =
      digits_of_nat (n div 10 div 10 div 10) @ [digit_char (n div 10 div 10 mod 10)]"
    using assms by (intro digits_of_nat_step) simp
  ultimately show ?thesis by (simp add: div_mult2_eq [symmetric])
qed

lemma fixed_digits:
  fixes n :: nat
  defines "ds \<equiv> (if length (digits_of_nat n) \<le> 3
                  then replicate (4 - length (digits_of_nat n)) (CHR ''0'') @ digits_of_nat n
                  else digits_of_nat n)"
  shows "take (length ds - 3) ds @ ''.'' @ drop (length ds - 3) ds =
    digits_of_nat (n div 1000) @ ''.'' @
    [digit_char (n div 100 mod 10), digit_char (n div 10 mod 10), digit_char (n mod 10)]"
proof -
  consider "n < 10" | "10 \<le> n" "n < 100" | "100 \<le> n" "n < 1000" | "1000 \<le> n" by linarith
  then show ?thesis
  proof cases
    case 1
    then have "digits_of_nat n = [digit_char n]" by (rule digits_of_nat_small)
    then show ?thesis using 1
      by (simp add: ds_def digits_of_nat_small digit_char_eval numeral_3_eq_3)
  next
    case 2
    then have "digits_of_nat n = [digit_char (n div 10), digit_char (n mod 10)]"
      by (simp add: digits_of_nat_step digits_of_nat_small)
    then show ?thesis using 2
      by (simp add: ds_def digits_of_nat_small digit_char_eval numeral_2_eq_2)
  next
    case 3
    then have "digits_of_nat n = [digit_char (n div 100), digit_char (n div 10 mod 10), digit_char (n mod 10)]"
      by (simp add: digits_of_nat_step digits_of_nat_small div_mult2_eq [symmetric])
    then show ?thesis using 3
      by (simp add: ds_def digits_of_nat_small digit_char_eval)
  next
    case 4
    have "3 < length (digits_of_nat n)"
      by (simp add: digits_last3 [OF 4] digits_of_nat_nonempty Suc_lessI)
    then show ?thesis
      by (simp add: ds_def digits_last3 [OF 4])
  qed
qed

lemma magnitude_shift:
  assumes "shift_ratio m 1 e = (p, q)"
  shows "0 < q" and "magnitude m e = real p / real q"
  using shift_ratio_value [OF assms] by (simp_all add: magnitude_def)

lemma round_half_up_floor:
  assumes "0 < q"
  shows "(2 * (1000 * p) + q) div (2 * q) = nat \<lfloor>real p / real q * 1000 + 1 / 2\<rfloor>"
proof -
  have "real p / real q * 1000 + 1 / 2 = real (2 * (1000 * p) + q) / real (2 * q)"
    using assms by (simp add: field_simps)
  then have "\<lfloor>real p / real q * 1000 + 1 / 2\<rfloor> = int ((2 * (1000 * p) + q) div (2 * q))"
    by (simp only: floor_divide_of_nat_eq)
  then show ?thesis by simp
qed

lemma toFixed3_finite:
  assumes "magnitude m e < 10 ^ 21"
  shows "toFixed3 (Finite s m e) =
    (let n = nat \<lfloor>magnitude m e * 1000 + 1 / 2\<rfloor>
     in (if s \<and> m \<noteq> 0 then ''-'' else []) @ digits_of_nat (n div 1000) @ ''.'' @
        [digit_char (n div 100 mod 10), digit_char (n div 10 mod 10), digit_char (n mod 10)])"
proof -
  obtain p q where pq: "shift_ratio m 1 e = (p, q)" by (cases "shift_ratio m 1 e")
  have q: "0 < q" and v: "magnitude m e = real p / real q"
    using magnitude_shift [OF pq] by simp_all
  have "real p < 10 ^ 21 * real q"
    using assms q by (simp add: v field_simps)
  then have "real p < real (10 ^ 21 * q)" by simp
  then have lt: "p < 10 ^ 21 * q" by (simp only: of_nat_less_iff)
  have n: "(2 * (1000 * p) + q) div (2 * q) = nat \<lfloor>magnitude m e * 1000 + 1 / 2\<rfloor>"
    unfolding v using q by (rule round_half_up_floor)
  have "toFixed3 (Finite s m e) =
    (let n = (2 * (1000 * p) + q) div (2 * q);
         ds = (if length (digits_of_nat n) \<le> 3
                  then replicate (4 - length (digits_of_nat n)) (CHR ''0'') @ digits_of_nat n
                  else digits_of_nat n)
     in (if s \<and> m \<noteq> 0 then ''-'' else []) @ (take (length ds - 3) ds @ ''.'' @ drop (length ds - 3) ds))"
    using lt pq by (simp add: toFixed3_def Let_def)
  then show ?thesis
    unfolding Let_def fixed_digits n .
qed

lemmas double_eval = to_double_def floor_log2_def shift_ratio_def round_half_even_def
  bit_length.simps Let_def

lemma valid_amount_eval:
  "valid_amount (c # cs) \<longleftrightarrow> is_digit c \<and> (cs = [] \<or> valid_amount cs)"
  by (cases cs) (auto simp add: valid_amount_def)

lemma fmul_zero: "fmul (Finite s m e) zero = Finite s 0 (- 1074)"
  by (simp add: zero_def shift_ratio_def to_double_def)

lemma leg_value_no_price:
  assumes "Option.bind token price = None"
    and "fdiv (to_double False raw 1)
           (to_double False (10 ^ (case token of None \<Rightarrow> 0 | Some t \<Rightarrow> decimals t)) 1) = Finite s m e"
  shows "spec_leg_value token raw = Finite s 0 (- 1074)"
  using assms by (simp add: spec_leg_value_def or_zero_def fmul_zero)

lemma shortest_numeral:
  "shortest x (numeral k) =
     (let j = pred_numeral k;
          scale = 10 ^ Suc j;
          lo = x div scale;
          hi = lo + 1;
          lo_ok = (lo \<noteq> 0 \<and> to_double False (lo * scale) 1 = to_double False x 1);
          hi_ok = (to_double False (hi * scale) 1 = to_double False x 1);
          lo_err = x - lo * scale;
          hi_err = hi * scale - x
      in if lo_ok \<and> hi_ok then
           (if lo_err < hi_err \<or> (lo_err = hi_err \<and> even lo) then (lo, Suc j) else (hi, Suc j))
         else if lo_ok then (lo, Suc j)
         else if hi_ok then (hi, Suc j)
         else shortest x j)"
  by (simp add: numeral_eq_Suc Let_def)

lemma to_double_one: "to_double False 1 1 = Finite False 4503599627370496 (- 52)"
  by (simp add: double_eval)

lemma to_double_nat_finite:
  assumes "a < 2 ^ 1024 - 2 ^ 970"
  shows "\<exists>m e. to_double False a 1 = Finite False m e \<and> m < 2 ^ 53 \<and> e \<le> 971"
proof -
  have "real a < real (2 ^ 1024 - 2 ^ 970)"
    using assms by (simp only: of_nat_less_iff)
  also have "real (2 ^ 1024 - 2 ^ 970) = 2 ^ 1024 - 2 ^ 970" by simp
  finally have "real a / real 1 < 2 ^ 1024 - 2 ^ 970" by simp
  then show ?thesis by (intro to_double_finite) simp_all
qed

lemma fdiv_one_finite:
  assumes "m < 2 ^ 53" and "e \<le> 971"
  shows "\<exists>m' e'. fdiv (Finite False m e) (Finite False 4503599627370496 (- 52)) = Finite False m' e'"
proof -
  obtain p q where pq: "shift_ratio m 4503599627370496 (e + 52) = (p, q)"
    by (cases "shift_ratio m 4503599627370496 (e + 52)")
  have q: "0 < q" and "real p / real q = real m / real 4503599627370496 * 2 powi (e + 52)"
    using shift_ratio_value [OF pq] by simp_all
  then have v: "real p / real q = real m * 2 powi e"
    by (simp add: power_int_add)
  have "real m < real (2 ^ 53)" using assms(1) by (simp only: of_nat_less_iff)
  then have m: "real m \<le> 2 ^ 53 - 1" by simp
  have "(2::real) powi e \<le> 2 powi 971"
    using assms(2) by (intro power_int_increasing) simp_all
  then have e: "(2::real) powi e \<le> 2 ^ 971" by simp
  have "real m * 2 powi e \<le> (2 ^ 53 - 1) * 2 ^ 971"
    using m e by (intro mult_mono) simp_all
  also have "\<dots> < (2::real) ^ 1024 - 2 ^ 970" by simp
  finally have "real p / real q < 2 ^ 1024 - 2 ^ 970" by (simp only: v)
  then obtain m' e' where "to_double False p q = Finite False m' e'"
    using to_double_finite [OF q, of p False] by blast
  then show ?thesis using pq by simp
qed

lemma leg_value_unknown_token:
  assumes "a < 2 ^ 1024 - 2 ^ 970"
  shows "spec_leg_value None a = zero"
proof -
  obtain m e where a: "to_double False a 1 = Finite False m e" and "m < 2 ^ 53" "e \<le> 971"
    using to_double_nat_finite [OF assms] by blast
  then obtain m' e' where
    d: "fdiv (Finite False m e) (Finite False 4503599627370496 (- 52)) = Finite False m' e'"
    using fdiv_one_finite by blast
  have "spec_leg_value None a = fmul (fdiv (to_double False a 1) (to_double False 1 1)) zero"
    by (simp add: spec_leg_value_def or_zero_def del: One_nat_def)
  also have "\<dots> = Finite False 0 (- 1074)"
    by (simp only: a to_double_one d fmul_zero)
  finally show ?thesis by (simp only: zero_def)
qed

lemma toFixed3_of_zero: "toFixed3 (Finite s 0 e) = ''0.000''"
  using toFixed3_finite [of 0 e s]
  by (simp add: magnitude_def digits_of_nat_small digit_char_eval)

lemma toFixed3_zero: "toFixed3 (Math_max zero zero) = ''0.000''"
proof -
  have "Math_max zero zero = zero"
    by (simp add: Math_max_def is_zero_def zero_def signed_def)
  then show ?thesis by (simp add: zero_def toFixed3_of_zero)
qed

lemma digits_value_one_zeros: "digits_value (CHR ''1'' # replicate k (CHR ''0'')) = 10 ^ k"
proof -
  have "digits_value (replicate k (CHR ''0'')) = 0"
    using digits_value_zeros [of k "[]"] by (simp add: digits_value_def)
  then show ?thesis
    using digits_value_append [of "[CHR ''1'']" "replicate k (CHR ''0'')"]
    by (simp add: digits_value_def digit_val_def)
qed

lemma valid_one_zeros: "valid_amount (CHR ''1'' # replicate k (CHR ''0''))"
  by (simp add: valid_amount_def list_all_iff is_digit_def)

lemma leg_value_overflow:
  "spec_leg_value None (digits_value (CHR ''1'' # replicate 309 (CHR ''0''))) = NaN"
proof -
  have "(2::real) ^ 1024 \<le> 10 ^ 309" by simp
  also have "(10::real) ^ 309 = real (10 ^ 309) / real 1" by simp
  finally have "to_double False (10 ^ 309) 1 = Infinity False"
    by (rule to_double_overflow [rotated]) simp
  then have a: "to_double False (digits_value (CHR ''1'' # replicate 309 (CHR ''0''))) 1 = Infinity False"
    by (simp only: digits_value_one_zeros)
  have "spec_leg_value None (digits_value (CHR ''1'' # replicate 309 (CHR ''0''))) =
      fmul (fdiv (to_double False (digits_value (CHR ''1'' # replicate 309 (CHR ''0''))) 1)
                 (to_double False 1 1)) zero"
    by (simp add: spec_leg_value_def or_zero_def del: One_nat_def)
  also have "\<dots> = NaN"
    by (simp only: a to_double_one) (simp add: zero_def)
  finally show ?thesis .
qed

lemma reduce_volume_append_error:
  assumes "list_all (\<lambda>t. \<exists>v. calculateVolume tokenMap t = Inr v) before"
    and "calculateVolume tokenMap trade = Inl e"
  shows "reduce_volume tokenMap acc (before @ trade # rest) = Inl e"
  using assms by (induction before arbitrary: acc) auto

lemma volume_bad_amount:
  assumes "c \<in> set (amount_in trade)" and "\<not> is_digit c" and "\<not> is_space c" and "c \<noteq> CHR ''-''"
  shows "calculateVolume tokenMap trade = Inl ParseError"
  using BN_of_string_bad_char [OF assms] by (simp add: calculateVolume_def)

lemma example_volume_25:
  "calculateVolume example_tokens (example_trade ''5A'' ''10000000000000'' ''5B'' ''24000000'')
     = Inr ''25.000''"
proof -
  have v: "valid_amount ''10000000000000''" "valid_amount ''24000000''"
    by (simp_all add: valid_amount_eval is_digit_def)
  have d: "digits_value ''10000000000000'' = 10000000000000" "digits_value ''24000000'' = 24000000"
    by (simp_all add: digits_value_def digit_val_def)
  have a: "spec_leg_value (example_tokens ''5A'') 10000000000000 = Finite False 7036874417766400 (- 48)"
    by (simp add: example_tokens_def spec_leg_value_def or_zero_def double_eval)
  have b: "spec_leg_value (example_tokens ''5B'') 24000000 = Finite False 6755399441055744 (- 48)"
    by (simp add: example_tokens_def spec_leg_value_def or_zero_def double_eval)
  have m: "Math_max (Finite False 7036874417766400 (- 48)) (Finite False 6755399441055744 (- 48))
      = Finite False 7036874417766400 (- 48)"
    by (simp add: Math_max_def is_zero_def signed_def)
  have f: "toFixed3 (Finite False 7036874417766400 (- 48)) = ''25.000''"
    by (simp add: toFixed3_def shift_ratio_def Let_def digits_of_nat.simps digit_char_eval)
  show ?thesis
    using v by (simp add: calculateVolume_valid example_trade_def d a b m f)
qed

lemma example_volume_bad:
  "calculateVolume example_tokens (example_trade ''5A'' ''12x'' ''5B'' ''24000000'') = Inl ParseError"
proof -
  have "\<not> is_digit (CHR ''x'')" "\<not> is_space (CHR ''x'')"
    by (simp_all add: is_digit_def is_space_def)
  then show ?thesis
    by (intro volume_bad_amount [of "CHR ''x''"]) (simp_all add: example_trade_def)
qed

lemma reduce_volume_fold:
  assumes "map (calculateVolume tokenMap) trades = map Inr volumes"
  shows "reduce_volume tokenMap acc trades = Inr (foldl fadd acc (map parseFloat volumes))"
  using assms
proof (induction trades arbitrary: acc volumes)
  case Nil
  then show ?case by simp
next
  case (Cons t ts)
  then obtain v vs where "volumes = v # vs" "calculateVolume tokenMap t = Inr v"
    "map (calculateVolume tokenMap) ts = map Inr vs"
    by (cases volumes) auto
  then show ?case using Cons.IH [of vs] by simp
qed

lemma replicate_eval:
  "replicate 1 x = [x]" "replicate 2 x = [x, x]" "replicate 3 x = [x, x, x]"
  by (simp_all add: numeral_2_eq_2 numeral_3_eq_3)

lemma example_volume_small:
  "calculateVolume example_tokens (example_trade ''5D'' ''6'' ''5X'' ''1'') = Inr ''0.001''"
proof -
  have v: "valid_amount ''6''" "valid_amount ''1''"
    by (simp_all add: valid_amount_eval is_digit_def)
  have d: "digits_value ''6'' = 6" "digits_value ''1'' = 1"
    by (simp_all add: digits_value_def digit_val_def)
  have t: "example_tokens ''5X'' = None" by (simp add: example_tokens_def)
  have a: "spec_leg_value (example_tokens ''5D'') 6 = Finite False 5534023222112865 (- 63)"
    by (simp add: example_tokens_def spec_leg_value_def or_zero_def double_eval)
  have "(1::nat) < 2 ^ 1024 - 2 ^ 970" by simp
  then have b: "spec_leg_value None 1 = zero" by (rule leg_value_unknown_token)
  have m: "Math_max (Finite False 5534023222112865 (- 63)) zero = Finite False 5534023222112865 (- 63)"
    by (simp add: Math_max_def is_zero_def zero_def signed_def)
  have f: "toFixed3 (Finite False 5534023222112865 (- 63)) = ''0.001''"
    by (simp add: toFixed3_def shift_ratio_def Let_def digits_of_nat.simps digit_char_eval replicate_eval)
  have "calculateVolume example_tokens (example_trade ''5D'' ''6'' ''5X'' ''1'') =
      Inr (toFixed3 (Math_max (spec_leg_value (example_tokens ''5D'') 6) (spec_leg_value None 1)))"
    using v by (subst calculateVolume_valid) (simp_all add: example_trade_def d t del: One_nat_def)
  then show ?thesis by (simp only: a b m f)
qed

lemma parseFloat_fixed:
  assumes "valid_amount ds" and "valid_amount fs"
  shows "parseFloat (ds @ CHR ''.'' # fs) = to_double False (digits_value (ds @ fs)) (10 ^ length fs)"
proof -
  obtain c cs where ds: "ds = c # cs" and c: "is_digit c" and all: "list_all is_digit ds"
    using assms(1) by (cases ds) (auto simp add: valid_amount_def)
  have fs: "fs \<noteq> []" "list_all is_digit fs"
    using assms(2) by (simp_all add: valid_amount_def)
  define s where "s = ds @ CHR ''.'' # fs"
  have c1: "\<not> is_space c" "c \<noteq> CHR ''-''" "c \<noteq> CHR ''+''" "c \<noteq> CHR ''I''"
    using c by (auto simp add: is_digit_def is_space_def)
  have dot: "\<not> is_digit (CHR ''.'')" "CHR ''.'' \<noteq> CHR ''e''" "CHR ''.'' \<noteq> CHR ''E''"
    by (simp_all add: is_digit_def)
  have h: "hd s = c" "s \<noteq> []" by (simp_all add: s_def ds)
  have t: "dropWhile is_space s = s" using c1 by (simp add: s_def ds)
  have i: "take 8 s \<noteq> ''Infinity''" using c1 by (simp add: s_def ds)
  have d: "takeWhile is_digit s = ds" "dropWhile is_digit s = CHR ''.'' # fs"
    using all dot by (simp_all add: s_def list_all_iff takeWhile_append2 dropWhile_append2)
  have f: "takeWhile is_digit fs = fs" "dropWhile is_digit fs = []"
    using fs by (simp_all add: list_all_iff takeWhile_eq_all_conv dropWhile_eq_Nil_conv)
  have "parseFloat s = to_double False (digits_value (ds @ fs)) (10 ^ length fs)"
    using c1 fs(1) by (simp add: parseFloat_def t i d f h Let_def digits_value_def)
  then show ?thesis by (simp only: s_def)
qed

lemma parseFloat_example: "parseFloat ''0.001'' = Finite False 4611686018427388 (- 62)"
proof -
  have "valid_amount ''0''" "valid_amount ''001''"
    by (simp_all add: valid_amount_eval is_digit_def)
  then have "parseFloat (''0'' @ CHR ''.'' # ''001'') =
      to_double False (digits_value (''0'' @ ''001'')) (10 ^ length ''001'')"
    by (rule parseFloat_fixed)
  moreover have "digits_value (''0'' @ ''001'') = 1"
    by (simp add: digits_value_def digit_val_def)
  moreover have "to_double False 1 (10 ^ 3) = Finite False 4611686018427388 (- 62)"
    by (simp add: double_eval)
  ultimately show ?thesis by simp
qed

lemma floor_log2_unique:
  assumes "0 < a" and "0 < b"
    and "2 powi k \<le> real a / real b" and "real a / real b < 2 powi (k + 1)"
  shows "floor_log2 a b = k"
proof (rule antisym)
  have lo: "2 powi floor_log2 a b \<le> real a / real b"
    and up: "real a / real b < 2 powi (floor_log2 a b + 1)"
    using floor_log2_bounds [OF assms(1,2)] by simp_all
  show "floor_log2 a b \<le> k"
  proof (rule ccontr)
    assume "\<not> floor_log2 a b \<le> k"
    then have "(2::real) powi (k + 1) \<le> 2 powi floor_log2 a b"
      by (intro power_int_increasing) simp_all
    then have "(2::real) powi (k + 1) \<le> real a / real b"
      using lo by (rule order_trans)
    then have "\<not> real a / real b < 2 powi (k + 1)" by (rule leD)
    then show False using assms(4) by blast
  qed
  show "k \<le> floor_log2 a b"
  proof (rule ccontr)
    assume "\<not> k \<le> floor_log2 a b"
    then have "(2::real) powi (floor_log2 a b + 1) \<le> 2 powi k"
      by (intro power_int_increasing) simp_all
    then have "(2::real) powi (floor_log2 a b + 1) \<le> real a / real b"
      using assms(3) by (rule order_trans)
    then have "\<not> real a / real b < 2 powi (floor_log2 a b + 1)" by (rule leD)
    then show False using up by blast
  qed
qed

lemma round_half_even_exact:
  assumes "0 < q" and "real p / real q = real m"
  shows "round_half_even p q = m"
proof -
  have "real p = real (m * q)" using assms by (simp add: field_simps)
  then have "p = m * q" by (simp only: of_nat_eq_iff)
  then show ?thesis using assms(1) by (simp add: round_half_even_def)
qed

lemma to_double_exact:
  assumes "0 < b" and "real a / real b = real m * 2 powi e"
    and "2 ^ 52 \<le> m" and "m < 2 ^ 53" and "- 1074 \<le> e" and "e \<le> 971"
  shows "to_double s a b = Finite s m e"
proof -
  have m: "(2::real) ^ 52 \<le> real m" "real m < 2 ^ 53"
    using assms(3,4) by (metis of_nat_le_iff of_nat_numeral of_nat_power,
      metis of_nat_less_iff of_nat_numeral of_nat_power)
  have pos: "0 < real a / real b"
    unfolding assms(2) using m by (intro mult_pos_pos) simp_all
  then have a: "0 < a" using assms(1) by (simp add: zero_less_divide_iff)
  have "(2::real) powi (e + 52) = 2 ^ 52 * 2 powi e" by (simp add: power_int_add)
  also have "\<dots> \<le> real m * 2 powi e"
    using m(1) by (intro mult_right_mono) simp_all
  finally have lo: "2 powi (e + 52) \<le> real a / real b" by (simp only: assms(2))
  have "real m * 2 powi e < 2 ^ 53 * 2 powi e"
    using m(2) by (intro mult_strict_right_mono) simp_all
  also have "\<dots> = 2 powi (e + 52 + 1)" by (simp add: power_int_add)
  finally have up: "real a / real b < 2 powi (e + 52 + 1)" by (simp only: assms(2))
  have fl: "floor_log2 a b = e + 52"
    using a assms(1) lo up by (rule floor_log2_unique)
  have E: "e = max (floor_log2 a b - 52) (- 1074)"
    using assms(5) by (simp add: fl)
  obtain p q where pq: "shift_ratio a b (- e) = (p, q)" by (cases "shift_ratio a b (- e)")
  have q: "0 < q" and "real p / real q = real a / real b * 2 powi (- e)"
    using shift_ratio_value [OF pq assms(1)] by simp_all
  then have "real p / real q = real m * (2 powi e * 2 powi (- e))"
    by (simp only: assms(2) mult.assoc)
  also have "2 powi e * 2 powi (- e) = (1::real)"
    by (simp add: power_int_minus)
  finally have "real p / real q = real m" by simp
  then have n: "m = round_half_even p q"
    using round_half_even_exact [OF q] by simp
  have "a \<noteq> 0" using a by simp
  then have "to_double s a b =
    (if m = 2 ^ 53 then (if 971 < e + 1 then Infinity s else Finite s (2 ^ 52) (e + 1))
     else (if 971 < e then Infinity s else Finite s m e))"
    using E pq n by (rule to_double_unfold)
  then show ?thesis using assms(4,6) by simp
qed

lemma fadd_zero_left:
  assumes "2 ^ 52 \<le> m" and "m < 2 ^ 53" and "- 1074 \<le> e" and "e \<le> 971"
  shows "fadd zero (Finite s m e) = Finite s m e"
proof -
  define k where "k = nat (e + 1074)"
  obtain p q where pq: "shift_ratio (m * 2 ^ k) 1 (- 1074) = (p, q)"
    by (cases "shift_ratio (m * 2 ^ k) 1 (- 1074)")
  have q: "0 < q" and "real p / real q = real (m * 2 ^ k) / real 1 * 2 powi (- 1074)"
    using shift_ratio_value [OF pq] by simp_all
  moreover have "real (m * 2 ^ k) / real 1 = real m * 2 powi (int k)"
    by simp
  ultimately have "real p / real q = real m * 2 powi (int k) * 2 powi (- 1074)"
    by (simp only:)
  then have "real p / real q = real m * (2 powi (int k) * 2 powi (- 1074))"
    by (simp only: mult.assoc)
  also have "2 powi (int k) * 2 powi (- 1074) = (2::real) powi (int k + (- 1074))"
    by (rule power_int_add [symmetric]) simp
  also have "int k + (- 1074) = e" using assms(3) by (simp add: k_def)
  finally have v: "real p / real q = real m * 2 powi e" .
  have t: "to_double s p q = Finite s m e"
    using q v assms by (rule to_double_exact)
  have m0: "0 < m" using assms(1) by (cases "m = 0") simp_all
  have g: "min (- 1074) e = - 1074" using assms(3) by simp
  define V where "V = signed s m * 2 ^ k"
  have V0: "V \<noteq> 0" using m0 by (simp add: V_def signed_def)
  have Vabs: "nat \<bar>V\<bar> = m * 2 ^ k"
    by (simp add: V_def signed_def abs_mult nat_mult_distrib nat_power_eq)
  have Vneg: "V < 0 \<longleftrightarrow> s"
    using m0 by (simp add: V_def signed_def mult_less_0_iff)
  have "signed False 0 * 2 ^ nat (- 1074 - - 1074) + signed s m * 2 ^ nat (e - - 1074) = V"
    by (simp add: V_def k_def signed_def)
  then have "fadd (Finite False 0 (- 1074)) (Finite s m e) =
      (if V = 0 then Finite (False \<and> s) 0 (- 1074)
       else let (p, q) = shift_ratio (nat \<bar>V\<bar>) 1 (- 1074) in to_double (V < 0) p q)"
    by (simp only: fadd.simps g Let_def)
  also have "\<dots> = to_double s p q"
    by (simp only: V0 if_False Vabs pq Vneg Let_def case_prod_conv)
  finally show ?thesis by (simp only: zero_def t)
qed

lemma example_sum_rounded:
  "spec_total_volume [''0.001'', ''0.001''] = ''0.002''"
proof -
  have "fadd zero (Finite False 4611686018427388 (- 62)) = Finite False 4611686018427388 (- 62)"
    by (rule fadd_zero_left) simp_all
  moreover have "fadd (Finite False 4611686018427388 (- 62)) (Finite False 4611686018427388 (- 62))
      = Finite False 4611686018427388 (- 61)"
    by (simp add: signed_def double_eval)
  ultimately have s:
    "fadd (fadd zero (Finite False 4611686018427388 (- 62))) (Finite False 4611686018427388 (- 62))
      = Finite False 4611686018427388 (- 61)"
    by (simp only:)
  have f: "toFixed3 (Finite False 4611686018427388 (- 61)) = ''0.002''"
    by (simp add: toFixed3_def shift_ratio_def Let_def digits_of_nat.simps digit_char_eval replicate_eval)
  show ?thesis
    by (simp add: spec_total_volume_def parseFloat_example s f)
qed

lemma example_sum_unrounded:
  "toFixed3 (fadd (spec_leg_value (example_tokens ''5D'') 6) (spec_leg_value (example_tokens ''5D'') 6))
     = ''0.001''"
proof -
  have a: "spec_leg_value (example_tokens ''5D'') 6 = Finite False 5534023222112865 (- 63)"
    by (simp add: example_tokens_def spec_leg_value_def or_zero_def double_eval)
  have s: "fadd (Finite False 5534023222112865 (- 63)) (Finite False 5534023222112865 (- 63))
      = Finite False 5534023222112865 (- 62)"
    by (simp add: signed_def double_eval)
  have f: "toFixed3 (Finite False 5534023222112865 (- 62)) = ''0.001''"
    by (simp add: toFixed3_def shift_ratio_def Let_def digits_of_nat.simps digit_char_eval replicate_eval)
  show ?thesis by (simp only: a s f)
qed

lemma round_half_even_top:
  assumes "0 < q" and "(2 * M + 1) * q \<le> 2 * p" and "p < Suc M * q" and "odd M"
  shows "round_half_even p q = Suc M"
proof -
  have "q * M \<le> p"
  proof -
    have "2 * (q * M) \<le> (2 * M + 1) * q" by (simp add: algebra_simps)
    then have "2 * (q * M) \<le> 2 * p" using assms(2) by (rule order_trans)
    then show ?thesis by simp
  qed
  moreover have "p < q * Suc M" using assms(3) by (simp add: mult.commute)
  ultimately have d: "p div q = M" by (rule div_nat_eqI)
  have "p = q * (p div q) + p mod q" by simp
  then have p: "p = q * M + p mod q" by (simp only: d)
  have "(2 * M + 1) * q \<le> 2 * (q * M + p mod q)"
    using assms(2) p by simp
  then have r: "q \<le> 2 * (p mod q)" by (simp add: algebra_simps)
  show ?thesis
    using r assms(4) by (auto simp add: round_half_even_def Let_def d)
qed

lemma to_double_overflow_tight:
  assumes "0 < b" and "2 ^ 1024 - 2 ^ 970 \<le> real a / real b"
  shows "to_double s a b = Infinity s"
proof (cases "2 ^ 1024 \<le> real a / real b")
  case True
  with assms(1) show ?thesis by (rule to_double_overflow)
next
  case False
  then have lt: "real a / real b < 2 ^ 1024" by (simp only: not_le)
  have "(0::real) < 2 ^ 1024 - 2 ^ 970" by simp
  then have "0 < real a / real b" using assms(2) by (rule less_le_trans)
  then have a: "0 < a" using assms(1) by (simp add: zero_less_divide_iff)
  have "(2::real) powi 1023 \<le> 2 ^ 1024 - 2 ^ 970" by simp
  then have lo: "2 powi 1023 \<le> real a / real b" using assms(2) by (rule order_trans)
  have "(2::real) ^ 1024 = 2 powi (1023 + 1)" by simp
  then have up: "real a / real b < 2 powi (1023 + 1)" using lt by (simp only:)
  have fl: "floor_log2 a b = 1023"
    using a assms(1) lo up by (rule floor_log2_unique)
  have E: "971 = max (floor_log2 a b - 52) (- 1074)" by (simp add: fl)
  obtain p q where pq: "shift_ratio a b (- 971) = (p, q)" by (cases "shift_ratio a b (- 971)")
  have q: "0 < q" and v: "real p / real q = real a / real b * 2 powi (- 971)"
    using shift_ratio_value [OF pq assms(1)] by simp_all
  have e: "(2::real) powi (- 971) = 1 / 2 ^ 971"
    by (simp add: power_int_minus_divide)
  have v': "real p / real q = real a / real b * (1 / 2 ^ 971)" by (simp only: v e)
  have "(2 ^ 1024 - 2 ^ 970) * (1 / 2 ^ 971) \<le> real a / real b * (1 / 2 ^ 971)"
    using assms(2) by (rule mult_right_mono) simp
  moreover have "((2::real) ^ 1024 - 2 ^ 970) * (1 / 2 ^ 971) = 2 ^ 53 - 1 / 2" by simp
  ultimately have ge: "2 ^ 53 - 1 / 2 \<le> real p / real q" by (simp only: v')
  have "real a / real b * (1 / 2 ^ 971) < 2 ^ 1024 * (1 / 2 ^ 971)"
    using lt by (rule mult_strict_right_mono) simp
  moreover have "(2::real) ^ 1024 * (1 / 2 ^ 971) = 2 ^ 53" by simp
  ultimately have less: "real p / real q < 2 ^ 53" by (simp only: v')
  have rq: "0 < real q" using q by simp
  have "(2 ^ 53 - 1 / 2) * real q \<le> real p"
    using ge rq by (simp only: pos_le_divide_eq)
  then have "real ((2 * (2 ^ 53 - 1) + 1) * q) \<le> real (2 * p)"
    by (simp add: algebra_simps)
  then have 1: "(2 * (2 ^ 53 - 1) + 1) * q \<le> 2 * p" by (simp only: of_nat_le_iff)
  have "real p < 2 ^ 53 * real q"
    using less rq by (simp only: pos_divide_less_eq)
  then have "real p < real (Suc (2 ^ 53 - 1) * q)" by simp
  then have 2: "p < Suc (2 ^ 53 - 1) * q" by (simp only: of_nat_less_iff)
  have "odd ((2::nat) ^ 53 - 1)" by simp
  with q 1 2 have "round_half_even p q = Suc (2 ^ 53 - 1)" by (rule round_half_even_top)
  then have n: "2 ^ 53 = round_half_even p q" by simp
  have "a \<noteq> 0" using a by simp
  then have "to_double s a b =
    (if (2::nat) ^ 53 = 2 ^ 53 then (if 971 < (971::int) + 1 then Infinity s else Finite s (2 ^ 52) (971 + 1))
     else (if 971 < (971::int) then Infinity s else Finite s (2 ^ 53) 971))"
    using E pq n by (rule to_double_unfold)
  then show ?thesis by simp
qed

lemma to_double_nat_overflow:
  assumes "2 ^ 1024 - 2 ^ 970 \<le> a"
  shows "to_double False a 1 = Infinity False"
proof -
  have "real (2 ^ 1024 - 2 ^ 970) \<le> real a"
    using assms by (simp only: of_nat_le_iff)
  moreover have "real (2 ^ 1024 - 2 ^ 970) = 2 ^ 1024 - 2 ^ 970" by simp
  ultimately have "2 ^ 1024 - 2 ^ 970 \<le> real a / real 1" by simp
  then show ?thesis by (intro to_double_overflow_tight) simp_all
qed

lemma leg_value_unknown_overflow:
  assumes "2 ^ 1024 - 2 ^ 970 \<le> a"
  shows "spec_leg_value None a = NaN"
proof -
  have a: "to_double False a 1 = Infinity False"
    using assms by (rule to_double_nat_overflow)
  have "spec_leg_value None a = fmul (fdiv (to_double False a 1) (to_double False 1 1)) zero"
    by (simp add: spec_leg_value_def or_zero_def del: One_nat_def)
  also have "\<dots> = NaN"
    by (simp only: a to_double_one) (simp add: zero_def)
  finally show ?thesis .
qed

lemma Math_max_NaN: "Math_max NaN y = NaN" "Math_max x NaN = NaN"
  by (simp_all add: Math_max_def)

lemma toFixed3_not_finite:
  "toFixed3 NaN = ''NaN''" "toFixed3 (Infinity s) = (if s then ''-Infinity'' else ''Infinity'')"
  by (simp_all add: toFixed3_def)

lemma toFixed3_large:
  assumes "10 ^ 21 \<le> magnitude m e"
  shows "toFixed3 (Finite s m e) =
    (if s then ''-'' else []) @ Number_toString_large (nat \<lfloor>magnitude m e\<rfloor>)"
proof -
  obtain p q where pq: "shift_ratio m 1 e = (p, q)" by (cases "shift_ratio m 1 e")
  have q: "0 < q" and v: "magnitude m e = real p / real q"
    using magnitude_shift [OF pq] by simp_all
  have "m \<noteq> 0"
  proof
    assume "m = 0"
    then have "magnitude m e = 0" by (simp add: magnitude_def)
    then show False using assms by simp
  qed
  have "10 ^ 21 * real q \<le> real p"
    using assms q by (simp add: v field_simps)
  then have "real (10 ^ 21 * q) \<le> real p" by simp
  then have le: "10 ^ 21 * q \<le> p" by (simp only: of_nat_le_iff)
  have "\<lfloor>real p / real q\<rfloor> = int (p div q)" by (simp only: floor_divide_of_nat_eq)
  then have n: "nat \<lfloor>magnitude m e\<rfloor> = p div q" by (simp add: v)
  show ?thesis
    using le pq \<open>m \<noteq> 0\<close> by (simp add: toFixed3_def n)
qed

lemma number_less_asym: "number_less x y \<Longrightarrow> \<not> number_less y x"
  by (cases x; cases y) (auto simp add: Let_def min.commute)

lemma number_less_irrefl: "\<not> number_less x x"
  by (cases x) (auto simp add: Let_def)

lemma Math_max_greatest:
  assumes "x \<noteq> NaN" and "y \<noteq> NaN"
  shows "(Math_max x y = x \<or> Math_max x y = y) \<and>
         \<not> number_less (Math_max x y) x \<and> \<not> number_less (Math_max x y) y"
proof (cases "is_zero x True \<and> is_zero y False")
  case True
  then have "Math_max x y = y" using assms by (simp add: Math_max_def)
  moreover have "\<not> number_less y x"
    using True by (cases x; cases y) (auto simp add: is_zero_def signed_def Let_def)
  ultimately show ?thesis by (simp add: number_less_irrefl)
next
  case False
  then show ?thesis
    using assms by (auto simp add: Math_max_def number_less_irrefl dest: number_less_asym)
qed

lemma parseFloat_exponent:
  assumes "valid_amount ds" and "valid_amount es"
  shows "parseFloat (ds @ CHR ''e'' # CHR ''+'' # es) =
    to_double False (digits_value ds * 10 ^ digits_value es) 1"
proof -
  obtain c cs where ds: "ds = c # cs" and c: "is_digit c" and all: "list_all is_digit ds"
    using assms(1) by (cases ds) (auto simp add: valid_amount_def)
  have es: "es \<noteq> []" "list_all is_digit es"
    using assms(2) by (simp_all add: valid_amount_def)
  define s where "s = ds @ CHR ''e'' # CHR ''+'' # es"
  have c1: "\<not> is_space c" "c \<noteq> CHR ''-''" "c \<noteq> CHR ''+''" "c \<noteq> CHR ''I''"
    using c by (auto simp add: is_digit_def is_space_def)
  have e: "\<not> is_digit (CHR ''e'')" by (simp add: is_digit_def)
  have h: "hd s = c" "s \<noteq> []" by (simp_all add: s_def ds)
  have t: "dropWhile is_space s = s" using c1 by (simp add: s_def ds)
  have i: "take 8 s \<noteq> ''Infinity''" using c1 by (simp add: s_def ds)
  have d: "takeWhile is_digit s = ds" "dropWhile is_digit s = CHR ''e'' # CHR ''+'' # es"
    using all e by (simp_all add: s_def list_all_iff takeWhile_append2 dropWhile_append2)
  have f: "takeWhile is_digit es = es"
    using es by (simp add: list_all_iff takeWhile_eq_all_conv)
  have n: "ds \<noteq> []" by (simp add: ds)
  have "parseFloat s = to_double False (digits_value ds * 10 ^ digits_value es) 1"
    using c1 n by (simp add: parseFloat_def t i d f h Let_def)
  then show ?thesis by (simp only: s_def)
qed

lemma parseFloat_example_large: "parseFloat ''1e+21'' = Finite False 7629394531250000 17"
proof -
  have "valid_amount ''1''" "valid_amount ''21''"
    by (simp_all add: valid_amount_eval is_digit_def)
  then have "parseFloat (''1'' @ CHR ''e'' # CHR ''+'' # ''21'') =
      to_double False (digits_value ''1'' * 10 ^ digits_value ''21'') 1"
    by (rule parseFloat_exponent)
  moreover have "digits_value ''1'' = 1" "digits_value ''21'' = 21"
    by (simp_all add: digits_value_def digit_val_def)
  moreover have "to_double False (1 * 10 ^ 21) 1 = Finite False 7629394531250000 17"
    by (simp add: double_eval)
  ultimately show ?thesis by simp
qed

lemma toFixed3_example_large: "toFixed3 (Finite False 7629394531250000 17) = ''1e+21''"
proof -
  have l: "length (digits_of_nat 1000000000000000000000) = 22"
    by (simp add: digits_of_nat.simps)
  have s: "shortest 1000000000000000000000 21 = (1, 21)"
    by (simp add: shortest_numeral double_eval)
  show ?thesis
    by (simp add: toFixed3_def shift_ratio_def Let_def Number_toString_large_def l s strip_zeros_def
        digits_of_nat.simps digit_char_eval)
qed

lemma example_volume_large:
  "calculateVolume example_tokens (example_trade ''5C'' ''1000000000000000000000'' ''5B'' ''1000000'')
     = Inr ''1e+21''"
proof -
  have v: "valid_amount ''1000000000000000000000''" "valid_amount ''1000000''"
    by (simp_all add: valid_amount_eval is_digit_def)
  have d: "digits_value ''1000000000000000000000'' = 1000000000000000000000"
    "digits_value ''1000000'' = 1000000"
    by (simp_all add: digits_value_def digit_val_def)
  have a: "spec_leg_value (example_tokens ''5C'') 1000000000000000000000 = Finite False 7629394531250000 17"
    by (simp add: example_tokens_def spec_leg_value_def or_zero_def double_eval)
  have b: "spec_leg_value (example_tokens ''5B'') 1000000 = Finite False 4503599627370496 (- 52)"
    by (simp add: example_tokens_def spec_leg_value_def or_zero_def double_eval)
  have m: "Math_max (Finite False 7629394531250000 17) (Finite False 4503599627370496 (- 52))
      = Finite False 7629394531250000 17"
    by (simp add: Math_max_def is_zero_def signed_def)
  show ?thesis
    using v by (simp add: calculateVolume_valid example_trade_def d a b m toFixed3_example_large)
qed

lemma example_total_large:
  "totalVolumeText example_tokens
     [example_trade ''5C'' ''1000000000000000000000'' ''5B'' ''1000000''] = Inr ''1e+21''"
proof -
  have "fadd zero (Finite False 7629394531250000 17) = Finite False 7629394531250000 17"
    by (rule fadd_zero_left) simp_all
  then show ?thesis
    by (simp add: totalVolumeText_def calculateTotalVolume_def example_volume_large
        parseFloat_example_large toFixed3_example_large)
qed

lemma leg_value_missing_price:
  assumes "Option.bind token price = None"
  shows "spec_leg_value token raw =
    (case fdiv (to_double False raw 1)
            (to_double False (10 ^ (case token of None \<Rightarrow> 0 | Some t \<Rightarrow> decimals t)) 1) of
       Finite s m e \<Rightarrow> Finite s 0 (- 1074)
     | _ \<Rightarrow> NaN)"
proof (cases "fdiv (to_double False raw 1)
            (to_double False (10 ^ (case token of None \<Rightarrow> 0 | Some t \<Rightarrow> decimals t)) 1)")
  case (Finite s m e)
  with assms have "spec_leg_value token raw = Finite s 0 (- 1074)" by (rule leg_value_no_price)
  then show ?thesis by (simp only: Finite number.case)
next
  case NaN
  then show ?thesis using assms by (simp add: spec_leg_value_def or_zero_def zero_def)
next
  case (Infinity s)
  then show ?thesis using assms by (simp add: spec_leg_value_def or_zero_def zero_def)
qed

lemma example_volume_no_price:
  "calculateVolume example_tokens
     (example_trade ''5E'' (CHR ''1'' # replicate 309 (CHR ''0'')) ''5B'' ''1000000'') = Inr ''NaN''"
proof -
  have v: "valid_amount ''1000000''" by (simp add: valid_amount_eval is_digit_def)
  have t: "example_tokens ''5E'' = Some \<lparr>address = ''5E'', symbol = ''NEW'', decimals = 0, price = None\<rparr>"
    by (simp add: example_tokens_def)
  have "(2::nat) ^ 1024 - 2 ^ 970 \<le> 10 ^ 309" by simp
  then have o: "to_double False (10 ^ 309) 1 = Infinity False" by (rule to_double_nat_overflow)
  have "spec_leg_value (example_tokens ''5E'') (10 ^ 309) =
      fmul (fdiv (to_double False (10 ^ 309) 1) (to_double False 1 1)) zero"
    by (simp add: t spec_leg_value_def or_zero_def del: One_nat_def)
  also have "\<dots> = NaN" by (simp only: o to_double_one) (simp add: zero_def)
  finally have a: "spec_leg_value (example_tokens ''5E'')
      (digits_value (CHR ''1'' # replicate 309 (CHR ''0''))) = NaN"
    by (simp only: digits_value_one_zeros)
  have "calculateVolume example_tokens
     (example_trade ''5E'' (CHR ''1'' # replicate 309 (CHR ''0'')) ''5B'' ''1000000'') =
     Inr (toFixed3 (Math_max
        (spec_leg_value (example_tokens ''5E'') (digits_value (CHR ''1'' # replicate 309 (CHR ''0''))))
        (spec_leg_value (example_tokens ''5B'') (digits_value ''1000000''))))"
    using v valid_one_zeros [of 309]
    by (subst calculateVolume_valid) (simp_all add: example_trade_def)
  then show ?thesis
    by (simp only: a Math_max_NaN toFixed3_not_finite)
qed

lemma reduce_volume_error_iff:
  "reduce_volume tokenMap acc trades = Inl e \<longleftrightarrow>
     (\<exists>before trade rest. trades = before @ trade # rest \<and>
        list_all (\<lambda>t. \<exists>v. calculateVolume tokenMap t = Inr v) before \<and>
        calculateVolume tokenMap trade = Inl e)"
proof
  show "\<exists>before trade rest. trades = before @ trade # rest \<and>
        list_all (\<lambda>t. \<exists>v. calculateVolume tokenMap t = Inr v) before \<and>
        calculateVolume tokenMap trade = Inl e"
    if "reduce_volume tokenMap acc trades = Inl e"
    using that
  proof (induction trades arbitrary: acc)
    case Nil
    then show ?case by simp
  next
    case (Cons t ts)
    show ?case
    proof (cases "calculateVolume tokenMap t")
      case (Inl e')
      with Cons.prems have "calculateVolume tokenMap t = Inl e" by simp
      then have "t # ts = [] @ t # ts \<and>
          list_all (\<lambda>t. \<exists>v. calculateVolume tokenMap t = Inr v) [] \<and>
          calculateVolume tokenMap t = Inl e"
        by simp
      then show ?thesis by blast
    next
      case (Inr v)
      with Cons.prems have "reduce_volume tokenMap (fadd acc (parseFloat v)) ts = Inl e" by simp
      then obtain before trade rest where r: "ts = before @ trade # rest"
        "list_all (\<lambda>t. \<exists>v. calculateVolume tokenMap t = Inr v) before"
        "calculateVolume tokenMap trade = Inl e"
        using Cons.IH by blast
      have "t # ts = (t # before) @ trade # rest \<and>
          list_all (\<lambda>t. \<exists>v. calculateVolume tokenMap t = Inr v) (t # before) \<and>
          calculateVolume tokenMap trade = Inl e"
        using r Inr by simp
      then show ?thesis by blast
    qed
  qed
next
  assume "\<exists>before trade rest. trades = before @ trade # rest \<and>
        list_all (\<lambda>t. \<exists>v. calculateVolume tokenMap t = Inr v) before \<and>
        calculateVolume tokenMap trade = Inl e"
  then obtain before trade rest where r: "trades = before @ trade # rest"
      "list_all (\<lambda>t. \<exists>v. calculateVolume tokenMap t = Inr v) before"
      "calculateVolume tokenMap trade = Inl e"
    by blast
  show "reduce_volume tokenMap acc trades = Inl e"
    unfolding r(1) using r(2,3) by (rule reduce_volume_append_error)
qed

lemma volumes_of_valid_trades:
  assumes "list_all (\<lambda>t. valid_amount (amount_in t) \<and> valid_amount (amount_out t)) trades"
  shows "\<exists>volumes. map (calculateVolume tokenMap) trades = map Inr volumes"
  using assms
proof (induction trades)
  case Nil
  then show ?case by simp
next
  case (Cons t ts)
  then obtain volumes where v: "map (calculateVolume tokenMap) ts = map Inr volumes" by auto
  from Cons.prems obtain x where "calculateVolume tokenMap t = Inr x"
    by (auto simp add: calculateVolume_valid)
  with v have "map (calculateVolume tokenMap) (t # ts) = map Inr (x # volumes)" by simp
  then show ?case by blast
qed

lemma total_volume_fold:
  assumes "map (calculateVolume tokenMap) trades = map Inr volumes"
  shows "totalVolumeText tokenMap trades = Inr (spec_total_volume volumes)"
  using assms
  by (simp add: totalVolumeText_def calculateTotalVolume_def reduce_volume_fold spec_total_volume_def)

section \<open>Properties of the amount formatter\<close>

text \<open>
  Claim C9. When the address is not in the registry, the routine returns the raw amount
  string as it is: nothing is parsed, divided, separated, truncated or suffixed.
\<close>

theorem format_unknown_address:
  "tokenMap addr = None \<Longrightarrow> formatAmountWithToken tokenMap amount addr = Inr amount"
  by (simp add: formatAmountWithToken_def)

theorem format_unknown_address_witness:
  "Map.empty ''5F'' = (None :: Token option) \<and>
   formatAmountWithToken Map.empty ''1234567'' ''5F'' = Inr ''1234567''"
  using format_unknown_address [of Map.empty "''5F''" "''1234567''"] by simp

text \<open>
  Claim C3 says that with \<open>decimals = 0\<close> the integer string comes back unchanged, with no
  separator and no fractional part. For a token of the registry with zero decimals the
  routine does not skip the fractional step: the remainder modulo 1 is rendered as the
  digit \<open>0\<close>, so the amount 5 of such a token is shown as \<open>5.0\<close> and the symbol.
\<close>

theorem format_zero_decimals_counterexample:
  "formatAmountWithToken
     [''5F'' \<mapsto> \<lparr>address = ''5F'', symbol = ''AZERO'', decimals = 0, price = None\<rparr>] ''5'' ''5F''
     = Inr ''5.0 AZERO'' \<and>
   formatAmountWithToken
     [''5F'' \<mapsto> \<lparr>address = ''5F'', symbol = ''AZERO'', decimals = 0, price = None\<rparr>] ''5'' ''5F''
     \<noteq> Inr ''5''"
  by (simp add: formatAmountWithToken_def BN_of_string_def is_space_def is_digit_def digits_value_def
      digit_val_def BN_div_def BN_mod_def BN_toString_def digits_of_nat.simps digit_char_eval padStart_def)

text \<open>
  Claim C3, amended. For every valid amount and every token of the registry with zero
  decimals, the routine returns the decimal numeral of the amount (the input itself when it
  has no leading zeros), then the separator, the single fractional digit \<open>0\<close>, a space and the
  token symbol.
\<close>

theorem format_zero_decimals:
  assumes "valid_amount raw" and "tokenMap addr = Some token" and "decimals token = 0"
  shows "formatAmountWithToken tokenMap raw addr =
           Inr (digits_of_nat (digits_value raw) @ ''.0 '' @ symbol token) \<and>
         (raw = ''0'' \<or> hd raw \<noteq> CHR ''0'' \<longrightarrow>
            formatAmountWithToken tokenMap raw addr = Inr (raw @ ''.0 '' @ symbol token))"
proof -
  have "digits_of_nat 0 = ''0''"
    by (subst digits_of_nat.simps) (simp add: digit_char_eval)
  then have *: "formatAmountWithToken tokenMap raw addr =
           Inr (digits_of_nat (digits_value raw) @ ''.0 '' @ symbol token)"
    using assms formatAmountWithToken_valid [of raw tokenMap addr token] by (simp add: padStart_def)
  moreover have "formatAmountWithToken tokenMap raw addr = Inr (raw @ ''.0 '' @ symbol token)"
    if "raw = ''0'' \<or> hd raw \<noteq> CHR ''0''"
    using * canonical_digits [OF assms(1) that] by simp
  ultimately show ?thesis by blast
qed

theorem format_zero_decimals_witness:
  "valid_amount ''42'' \<and>
   formatAmountWithToken
     [''5F'' \<mapsto> \<lparr>address = ''5F'', symbol = ''AZERO'', decimals = 0, price = None\<rparr>] ''42'' ''5F''
     = Inr ''42.0 AZERO''"
proof -
  have v: "valid_amount ''42''"
    by (simp add: valid_amount_def is_digit_def)
  show ?thesis
    using v format_zero_decimals
      [of "''42''" "[''5F'' \<mapsto> \<lparr>address = ''5F'', symbol = ''AZERO'', decimals = 0, price = None\<rparr>]"
          "''5F''" "\<lparr>address = ''5F'', symbol = ''AZERO'', decimals = 0, price = None\<rparr>"]
    by auto
qed

text \<open>
  Claim C4 says that \<open>format("1", 18)\<close> is \<open>0.000\<close> and that
  \<open>format("1000000000000000000", 18)\<close> is \<open>1.000\<close>. The routine ends every rendered amount
  with a space and the token symbol, so for a token AZERO with 18 decimals the outputs are
  \<open>0.000 AZERO\<close> and \<open>1.000 AZERO\<close>, not the bare numerals.
\<close>

theorem format_fraction_truncated_counterexample:
  "formatAmountWithToken
     [''5G'' \<mapsto> \<lparr>address = ''5G'', symbol = ''AZERO'', decimals = 18, price = None\<rparr>]
     ''1'' ''5G'' \<noteq> Inr ''0.000'' \<and>
   formatAmountWithToken
     [''5G'' \<mapsto> \<lparr>address = ''5G'', symbol = ''AZERO'', decimals = 18, price = None\<rparr>]
     ''1000000000000000000'' ''5G'' \<noteq> Inr ''1.000'' \<and>
   formatAmountWithToken
     [''5G'' \<mapsto> \<lparr>address = ''5G'', symbol = ''AZERO'', decimals = 18, price = None\<rparr>]
     ''1000000000000000000'' ''5G'' = Inr ''1.000 AZERO''"
proof -
  have t: "[''5G'' \<mapsto> \<lparr>address = ''5G'', symbol = ''AZERO'', decimals = 18, price = None\<rparr>] ''5G''
      = Some \<lparr>address = ''5G'', symbol = ''AZERO'', decimals = 18, price = None\<rparr>"
    by simp
  show ?thesis
    using t format_examples_18
      [of "[''5G'' \<mapsto> \<lparr>address = ''5G'', symbol = ''AZERO'', decimals = 18, price = None\<rparr>]"
          "''5G''" "\<lparr>address = ''5G'', symbol = ''AZERO'', decimals = 18, price = None\<rparr>"]
    by simp
qed

text \<open>
  Claim C4, amended. For every valid amount \<open>a\<close> and every token of the registry with
  \<open>decimals = d > 0\<close>, the remainder \<open>a mod 10\<^sup>d\<close> is rendered with leading zeros to exactly
  \<open>d\<close> digits, and the fractional part shown is the first three characters of that string:
  its value is the remainder divided by \<open>10\<^sup>d\<^sup>-\<^sup>3\<close> rounded down, never up, whatever digits
  are dropped. The output is the integer part, the separator, that fractional part, a space
  and the token symbol. With 18 decimals and the symbol \<open>S\<close> the amount \<open>1\<close> is rendered
  \<open>0.000 S\<close> and the amount \<open>1000000000000000000\<close> is rendered \<open>1.000 S\<close>.
\<close>

theorem format_fraction_truncated:
  assumes "tokenMap addr = Some token" and "0 < decimals token"
  shows "(valid_amount raw \<longrightarrow>
          (let d = decimals token; a = digits_value raw;
               padded = padStart d (CHR ''0'') (digits_of_nat (a mod 10 ^ d))
           in length padded = d \<and> list_all is_digit padded \<and> digits_value padded = a mod 10 ^ d \<and>
              digits_value (take 3 padded) = (a mod 10 ^ d) div 10 ^ (d - 3) \<and>
              formatAmountWithToken tokenMap raw addr =
                Inr (digits_of_nat (a div 10 ^ d) @ ''.'' @ take 3 padded @ '' '' @ symbol token))) \<and>
         (decimals token = 18 \<longrightarrow>
            formatAmountWithToken tokenMap ''1'' addr = Inr (''0.000 '' @ symbol token) \<and>
            formatAmountWithToken tokenMap ''1000000000000000000'' addr =
              Inr (''1.000 '' @ symbol token))"
proof (intro conjI impI)
  assume "valid_amount raw"
  then show "let d = decimals token; a = digits_value raw;
               padded = padStart d (CHR ''0'') (digits_of_nat (a mod 10 ^ d))
           in length padded = d \<and> list_all is_digit padded \<and> digits_value padded = a mod 10 ^ d \<and>
              digits_value (take 3 padded) = (a mod 10 ^ d) div 10 ^ (d - 3) \<and>
              formatAmountWithToken tokenMap raw addr =
                Inr (digits_of_nat (a div 10 ^ d) @ ''.'' @ take 3 padded @ '' '' @ symbol token)"
    using assms formatAmountWithToken_valid [of raw tokenMap addr token]
    by (simp add: Let_def padded_remainder digits_value_take)
qed (use assms format_examples_18 [of tokenMap addr token] in simp_all)

theorem format_fraction_truncated_witness:
  "formatAmountWithToken
     [''5F'' \<mapsto> \<lparr>address = ''5F'', symbol = ''USDT'', decimals = 3, price = None\<rparr>]
     ''1234567'' ''5F'' = Inr ''1234.567 USDT'' \<and>
   formatAmountWithToken
     [''5F'' \<mapsto> \<lparr>address = ''5F'', symbol = ''AZERO'', decimals = 18, price = None\<rparr>]
     ''1'' ''5F'' = Inr ''0.000 AZERO''"
proof -
  have v: "valid_amount ''1234567''"
    by (simp add: valid_amount_def is_digit_def)
  have d: "digits_value ''1234567'' = 1234567"
    by (simp add: digits_value_def digit_val_def)
  have e: "digits_of_nat 1234 = ''1234''" "digits_of_nat 567 = ''567''"
    by (simp_all add: digits_of_nat.simps digit_char_eval)
  show ?thesis
    using v format_fraction_truncated
      [of "[''5F'' \<mapsto> \<lparr>address = ''5F'', symbol = ''USDT'', decimals = 3, price = None\<rparr>]"
          "''5F''" "\<lparr>address = ''5F'', symbol = ''USDT'', decimals = 3, price = None\<rparr>" "''1234567''"]
      format_fraction_truncated
      [of "[''5F'' \<mapsto> \<lparr>address = ''5F'', symbol = ''AZERO'', decimals = 18, price = None\<rparr>]"
          "''5F''" "\<lparr>address = ''5F'', symbol = ''AZERO'', decimals = 18, price = None\<rparr>" "''1''"]
    by (simp add: d e padStart_def)
qed

text \<open>
  Claim C5. For every valid amount \<open>a\<close> and every number of decimals \<open>d\<close>, the integer
  part of the output (what precedes the separator) is the decimal numeral of the exact
  quotient of \<open>a\<close> by \<open>10\<^sup>d\<close> rounded down, whatever the size of \<open>a\<close>.
\<close>

theorem format_integer_part_exact:
  assumes "valid_amount raw" and "tokenMap addr = Some token"
  shows "\<exists>out. formatAmountWithToken tokenMap raw addr = Inr out \<and>
           takeWhile (\<lambda>c. c \<noteq> CHR ''.'') out =
             digits_of_nat (digits_value raw div 10 ^ decimals token) \<and>
           digits_value (takeWhile (\<lambda>c. c \<noteq> CHR ''.'') out) =
             digits_value raw div 10 ^ decimals token"
  using formatAmountWithToken_valid [of raw tokenMap addr token] assms
  by (simp add: takeWhile_integer_part digits_of_nat_all_digits digits_value_digits_of_nat)

theorem format_integer_part_exact_witness:
  "valid_amount ''123456789012345678901234567890'' \<and>
   (\<exists>out. formatAmountWithToken
      [''5F'' \<mapsto> \<lparr>address = ''5F'', symbol = ''AZERO'', decimals = 12, price = None\<rparr>]
      ''123456789012345678901234567890'' ''5F'' = Inr out \<and>
      digits_value (takeWhile (\<lambda>c. c \<noteq> CHR ''.'') out) = 123456789012345678)"
proof -
  have v: "valid_amount ''123456789012345678901234567890''"
    by (simp add: valid_amount_def is_digit_def)
  have d: "digits_value ''123456789012345678901234567890'' = 123456789012345678901234567890"
    by (simp add: digits_value_def digit_val_def)
  show ?thesis
    using v format_integer_part_exact
      [of "''123456789012345678901234567890''"
          "[''5F'' \<mapsto> \<lparr>address = ''5F'', symbol = ''AZERO'', decimals = 12, price = None\<rparr>]"
          "''5F''" "\<lparr>address = ''5F'', symbol = ''AZERO'', decimals = 12, price = None\<rparr>"]
    by (auto simp add: d)
qed

text \<open>
  Claim C7 says that the formatter fails with a parse error on every input that contains a
  sign, a decimal point or another character that is not a digit. Three kinds of input
  show otherwise. For an address that is not in the registry the input is returned before
  anything is parsed, so any string comes back unchanged. For a token of the registry, a
  minus sign in front of the digits is read as the sign of the amount, and white space is
  removed before the digits are read: \<open>-45\<close> and \<open>4 5\<close> are formatted, with one decimal,
  as \<open>-4.-5\<close> and \<open>4.5\<close>.
\<close>

theorem format_parse_errors_counterexample:
  "formatAmountWithToken Map.empty ''-1.5x'' ''5F'' = Inr ''-1.5x'' \<and>
   formatAmountWithToken
     [''5F'' \<mapsto> \<lparr>address = ''5F'', symbol = ''AZERO'', decimals = 1, price = None\<rparr>] ''-45'' ''5F''
     = Inr ''-4.-5 AZERO'' \<and>
   formatAmountWithToken
     [''5F'' \<mapsto> \<lparr>address = ''5F'', symbol = ''AZERO'', decimals = 1, price = None\<rparr>] ''4 5'' ''5F''
     = Inr ''4.5 AZERO''"
  by (simp add: formatAmountWithToken_def BN_of_string_def is_space_def is_digit_def digits_value_def
      digit_val_def BN_div_def BN_mod_def BN_toString_def digits_of_nat.simps digit_char_eval padStart_def)

text \<open>
  Claim C7, amended. The formatter never fails on a valid amount. For an address that is
  not in the registry it fails on no input and returns the input. For a token of the
  registry it fails with a parse error exactly when, after all white space is removed and
  one minus sign at the front is dropped, a character that is not a digit is left. So it
  fails on every input with a decimal point, a plus sign, a letter or any other character
  that is not a digit, white space or a minus sign, and on every input with a minus sign
  that is not the first character other than white space. A minus sign in front of a valid
  amount \<open>a\<close> is accepted: the output is made of the negated quotient and the negated
  remainder of \<open>a\<close> by \<open>10\<^sup>d\<close>, the remainder filled to \<open>d\<close> characters and cut to three.
  White space is accepted: an input with a character other than white space is formatted as
  the input without its white space is.
\<close>

theorem format_parse_errors:
  "(valid_amount raw \<longrightarrow> (\<exists>out. formatAmountWithToken tokenMap raw addr = Inr out)) \<and>
   (tokenMap addr = None \<longrightarrow> formatAmountWithToken tokenMap raw addr = Inr raw) \<and>
   (tokenMap addr = Some token \<longrightarrow>
      (formatAmountWithToken tokenMap raw addr = Inl ParseError \<longleftrightarrow>
         (\<exists>c \<in> set (let stripped = filter (\<lambda>c. \<not> is_space c) raw
                     in if stripped \<noteq> [] \<and> hd stripped = CHR ''-'' then tl stripped else stripped).
            \<not> is_digit c))) \<and>
   (tokenMap addr = Some token \<and> c \<in> set raw \<and> \<not> is_digit c \<and> \<not> is_space c \<and> c \<noteq> CHR ''-'' \<longrightarrow>
      formatAmountWithToken tokenMap raw addr = Inl ParseError) \<and>
   (tokenMap addr = Some token \<and> raw = before @ CHR ''-'' # rest \<and> d \<in> set before \<and> \<not> is_space d \<longrightarrow>
      formatAmountWithToken tokenMap raw addr = Inl ParseError) \<and>
   (tokenMap addr = Some token \<and> valid_amount body \<longrightarrow>
      formatAmountWithToken tokenMap (CHR ''-'' # body) addr =
        Inr (BN_toString (- int (digits_value body div 10 ^ decimals token)) @ ''.'' @
             take 3 (padStart (decimals token) (CHR ''0'')
                       (BN_toString (- int (digits_value body mod 10 ^ decimals token))))
             @ '' '' @ symbol token)) \<and>
   (tokenMap addr = Some token \<and> filter (\<lambda>c. \<not> is_space c) raw \<noteq> [] \<longrightarrow>
      formatAmountWithToken tokenMap raw addr =
        formatAmountWithToken tokenMap (filter (\<lambda>c. \<not> is_space c) raw) addr)"
proof (intro conjI impI)
  show "\<exists>out. formatAmountWithToken tokenMap raw addr = Inr out" if "valid_amount raw"
    using that by (cases "tokenMap addr") (simp_all add: formatAmountWithToken_def BN_of_string_valid Let_def)
  show "formatAmountWithToken tokenMap raw addr = Inr raw" if "tokenMap addr = None"
    using that by (simp add: formatAmountWithToken_def)
  show "formatAmountWithToken tokenMap raw addr = Inl ParseError \<longleftrightarrow>
         (\<exists>c \<in> set (let stripped = filter (\<lambda>c. \<not> is_space c) raw
                     in if stripped \<noteq> [] \<and> hd stripped = CHR ''-'' then tl stripped else stripped).
            \<not> is_digit c)"
    if "tokenMap addr = Some token"
  proof -
    have "formatAmountWithToken tokenMap raw addr = Inl ParseError \<longleftrightarrow>
        BN_of_string raw = Inl ParseError"
      using that
      by (auto simp add: formatAmountWithToken_def Let_def split: sum.splits option.splits)
    then show ?thesis by (simp only: BN_of_string_error_iff)
  qed
  show "formatAmountWithToken tokenMap raw addr = Inl ParseError"
    if "tokenMap addr = Some token \<and> c \<in> set raw \<and> \<not> is_digit c \<and> \<not> is_space c \<and> c \<noteq> CHR ''-''"
    using that by (simp add: formatAmountWithToken_def BN_of_string_bad_char [of c raw])
  show "formatAmountWithToken tokenMap raw addr = Inl ParseError"
    if "tokenMap addr = Some token \<and> raw = before @ CHR ''-'' # rest \<and> d \<in> set before \<and> \<not> is_space d"
    using that BN_of_string_minus_inside [of raw before rest d]
    by (simp add: formatAmountWithToken_def)
  show "formatAmountWithToken tokenMap (CHR ''-'' # body) addr =
        Inr (BN_toString (- int (digits_value body div 10 ^ decimals token)) @ ''.'' @
             take 3 (padStart (decimals token) (CHR ''0'')
                       (BN_toString (- int (digits_value body mod 10 ^ decimals token))))
             @ '' '' @ symbol token)"
    if "tokenMap addr = Some token \<and> valid_amount body"
    using that formatAmountWithToken_minus [of body tokenMap addr token] by simp
  show "formatAmountWithToken tokenMap raw addr =
        formatAmountWithToken tokenMap (filter (\<lambda>c. \<not> is_space c) raw) addr"
    if "tokenMap addr = Some token \<and> filter (\<lambda>c. \<not> is_space c) raw \<noteq> []"
    using that BN_of_string_strip [of raw] by (simp add: formatAmountWithToken_def)
qed

theorem format_parse_errors_witness:
  "valid_amount ''12'' \<and>
   (\<exists>out. formatAmountWithToken
      [''5F'' \<mapsto> \<lparr>address = ''5F'', symbol = ''AZERO'', decimals = 1, price = None\<rparr>] ''12'' ''5F''
      = Inr out) \<and>
   formatAmountWithToken
      [''5F'' \<mapsto> \<lparr>address = ''5F'', symbol = ''AZERO'', decimals = 1, price = None\<rparr>] ''1.5'' ''6G''
      = Inr ''1.5'' \<and>
   formatAmountWithToken
      [''5F'' \<mapsto> \<lparr>address = ''5F'', symbol = ''AZERO'', decimals = 1, price = None\<rparr>] ''1.5'' ''5F''
      = Inl ParseError \<and>
   formatAmountWithToken
      [''5F'' \<mapsto> \<lparr>address = ''5F'', symbol = ''AZERO'', decimals = 1, price = None\<rparr>] ''+5'' ''5F''
      = Inl ParseError \<and>
   formatAmountWithToken
      [''5F'' \<mapsto> \<lparr>address = ''5F'', symbol = ''AZERO'', decimals = 1, price = None\<rparr>] ''1-2'' ''5F''
      = Inl ParseError \<and>
   formatAmountWithToken
      [''5F'' \<mapsto> \<lparr>address = ''5F'', symbol = ''AZERO'', decimals = 1, price = None\<rparr>] ''--5'' ''5F''
      = Inl ParseError \<and>
   formatAmountWithToken
      [''5F'' \<mapsto> \<lparr>address = ''5F'', symbol = ''AZERO'', decimals = 1, price = None\<rparr>] ''5-'' ''5F''
      = Inl ParseError \<and>
   formatAmountWithToken
      [''5F'' \<mapsto> \<lparr>address = ''5F'', symbol = ''AZERO'', decimals = 1, price = None\<rparr>] ''-12'' ''5F''
      = Inr ''-1.-2 AZERO'' \<and>
   formatAmountWithToken
      [''5F'' \<mapsto> \<lparr>address = ''5F'', symbol = ''AZERO'', decimals = 1, price = None\<rparr>] ''-12'' ''5F''
      \<noteq> Inl ParseError \<and>
   formatAmountWithToken
      [''5F'' \<mapsto> \<lparr>address = ''5F'', symbol = ''AZERO'', decimals = 1, price = None\<rparr>] '' 1 2'' ''5F''
      = formatAmountWithToken
      [''5F'' \<mapsto> \<lparr>address = ''5F'', symbol = ''AZERO'', decimals = 1, price = None\<rparr>] ''12'' ''5F''"
proof -
  define tm where
    "tm = [''5F'' \<mapsto> \<lparr>address = ''5F'', symbol = ''AZERO'', decimals = 1, price = None\<rparr>]"
  define tok where "tok = \<lparr>address = ''5F'', symbol = ''AZERO'', decimals = 1, price = None\<rparr>"
  have t: "tm ''5F'' = Some tok" "tm ''6G'' = None" "decimals tok = 1" "symbol tok = ''AZERO''"
    by (simp_all add: tm_def tok_def)
  have v: "valid_amount ''12''"
    by (simp add: valid_amount_def is_digit_def)
  have c: "\<not> is_digit (CHR ''.'')" "\<not> is_space (CHR ''.'')" "\<not> is_digit (CHR ''+'')"
    "\<not> is_space (CHR ''+'')" "\<not> is_digit (CHR ''-'')" "\<not> is_space (CHR ''-'')"
    "is_digit (CHR ''1'')" "is_digit (CHR ''2'')" "is_digit (CHR ''5'')"
    "\<not> is_space (CHR ''1'')" "\<not> is_space (CHR ''2'')" "\<not> is_space (CHR ''5'')"
    "is_space (CHR '' '')"
    by (simp_all add: is_digit_def is_space_def)
  have d: "digits_value ''12'' = 12"
    by (simp add: digits_value_def digit_val_def)
  have e: "BN_toString (- 1) = ''-1''" "BN_toString (- 2) = ''-2''"
    by (simp_all add: BN_toString_def digits_of_nat.simps digit_char_eval)
  have 1: "\<exists>out. formatAmountWithToken tm ''12'' ''5F'' = Inr out"
    using v format_parse_errors [of "''12''" tm "''5F''"] by blast
  have 2: "formatAmountWithToken tm ''1.5'' ''6G'' = Inr ''1.5''"
    using t format_parse_errors [of "''1.5''" tm "''6G''"] by blast
  have 3: "formatAmountWithToken tm ''1.5'' ''5F'' = Inl ParseError"
    using t c format_parse_errors [of "''1.5''" tm "''5F''" tok "CHR ''.''"] by simp
  have 4: "formatAmountWithToken tm ''+5'' ''5F'' = Inl ParseError"
    using t c format_parse_errors [of "''+5''" tm "''5F''" tok "CHR ''+''"] by simp
  have 5: "formatAmountWithToken tm ''1-2'' ''5F'' = Inl ParseError"
    using t c format_parse_errors [of "''1-2''" tm "''5F''" tok _ "''1''" "''2''" "CHR ''1''"] by simp
  have 6: "formatAmountWithToken tm ''--5'' ''5F'' = Inl ParseError"
    using t c format_parse_errors [of "''--5''" tm "''5F''" tok _ "''-''" "''5''" "CHR ''-''"] by simp
  have 7: "formatAmountWithToken tm ''5-'' ''5F'' = Inl ParseError"
    using t c format_parse_errors [of "''5-''" tm "''5F''" tok] by simp
  have 8: "formatAmountWithToken tm ''-12'' ''5F'' = Inr ''-1.-2 AZERO''"
    using t v format_parse_errors [of _ tm "''5F''" tok _ _ _ _ "''12''"]
    by (simp add: d e padStart_def)
  have 9: "formatAmountWithToken tm ''-12'' ''5F'' \<noteq> Inl ParseError"
    using t c format_parse_errors [of "''-12''" tm "''5F''" tok] by simp
  have 10: "formatAmountWithToken tm '' 1 2'' ''5F'' = formatAmountWithToken tm ''12'' ''5F''"
    using t c format_parse_errors [of "'' 1 2''" tm "''5F''" tok] by simp
  show ?thesis
    using v 1 2 3 4 5 6 7 8 9 10 unfolding tm_def by blast
qed

section \<open>Properties of the volume of a trade\<close>

lemma volume_bad_amount_out:
  assumes "c \<in> set (amount_out trade)" and "\<not> is_digit c" and "\<not> is_space c" and "c \<noteq> CHR ''-''"
  shows "calculateVolume tokenMap trade = Inl ParseError"
proof -
  have o: "BN_of_string (amount_out trade) = Inl ParseError"
    using assms by (rule BN_of_string_bad_char)
  show ?thesis
  proof (cases "BN_of_string (amount_in trade)")
    case (Inl e)
    then have "e = ParseError" using BN_of_string_not_hangs [of "amount_in trade"] by (cases e) simp_all
    with Inl show ?thesis by (simp add: calculateVolume_def)
  next
    case (Inr b)
    with o show ?thesis by (simp add: calculateVolume_def)
  qed
qed

text \<open>
  Claim C1 says that for every trade the volume is rendered with exactly three fractional
  digits, and that a missing price gives the value 0 on its leg. Two trades with valid
  amounts show otherwise. From \<open>10\<^sup>2\<^sup>1\<close> on, \<^verbatim>\<open>toFixed(3)\<close> gives the exponent form of a
  number: \<open>10\<^sup>2\<^sup>1\<close> units of a token without decimals and with the price 1 have the volume
  \<open>1e+21\<close>. The amount \<open>10\<^sup>3\<^sup>0\<^sup>9\<close> is read as the number \<open>Infinity\<close>, and \<open>Infinity * 0\<close> is not 0
  but \<open>NaN\<close>: with that amount of a token without a price the volume is \<open>NaN\<close>, although the
  other leg is worth 1.
\<close>

theorem volume_of_trade_counterexample:
  "calculateVolume example_tokens (example_trade ''5C'' ''1000000000000000000000'' ''5B'' ''1000000'')
     = Inr ''1e+21'' \<and>
   calculateVolume example_tokens
     (example_trade ''5E'' (CHR ''1'' # replicate 309 (CHR ''0'')) ''5B'' ''1000000'') = Inr ''NaN''"
  by (intro conjI example_volume_large example_volume_no_price)

text \<open>
  Claim C1, amended. For every registry and every trade whose amounts are valid, the volume
  is \<^verbatim>\<open>Math.max\<close> of the values of the two legs, rendered by \<^verbatim>\<open>toFixed(3)\<close> at this last step
  only. The value of a leg is the raw amount divided by \<open>10\<^sup>d\<close> for the decimals \<open>d\<close> of its
  token, times the price, in double arithmetic. A missing price is 0.0: the value of that
  leg is then a zero when the human amount is finite, and \<open>NaN\<close> when it is not.
  \<^verbatim>\<open>Math.max\<close> is \<open>NaN\<close> when one of the values is, and otherwise one of the two values, which
  neither of them exceeds. A finite number below \<open>10\<^sup>2\<^sup>1\<close> is rendered with exactly three
  fractional digits: the digits of the number times 1000 rounded to the nearest integer,
  a half upwards, not truncated. A finite number from \<open>10\<^sup>2\<^sup>1\<close> on is rendered in the exponent
  form of \<^verbatim>\<open>toString\<close>, and \<open>NaN\<close> and the infinities by their names.
\<close>

theorem volume_of_trade:
  assumes "valid_amount (amount_in trade)" and "valid_amount (amount_out trade)"
  shows "calculateVolume tokenMap trade =
      Inr (toFixed3 (Math_max
        (spec_leg_value (tokenMap (token_in trade)) (digits_value (amount_in trade)))
        (spec_leg_value (tokenMap (token_out trade)) (digits_value (amount_out trade))))) \<and>
    (Option.bind token price = None \<longrightarrow>
       spec_leg_value token raw =
         (case fdiv (to_double False raw 1)
                 (to_double False (10 ^ (case token of None \<Rightarrow> 0 | Some t \<Rightarrow> decimals t)) 1) of
            Finite s' m' e' \<Rightarrow> Finite s' 0 (- 1074)
          | _ \<Rightarrow> NaN)) \<and>
    Math_max NaN y = NaN \<and> Math_max x NaN = NaN \<and>
    (x \<noteq> NaN \<and> y \<noteq> NaN \<longrightarrow>
       (Math_max x y = x \<or> Math_max x y = y) \<and>
       \<not> number_less (Math_max x y) x \<and> \<not> number_less (Math_max x y) y) \<and>
    (magnitude m e < 10 ^ 21 \<longrightarrow>
       toFixed3 (Finite s m e) =
         (let n = nat \<lfloor>magnitude m e * 1000 + 1 / 2\<rfloor>
          in (if s \<and> m \<noteq> 0 then ''-'' else []) @ digits_of_nat (n div 1000) @ ''.'' @
             [digit_char (n div 100 mod 10), digit_char (n div 10 mod 10), digit_char (n mod 10)])) \<and>
    (10 ^ 21 \<le> magnitude m e \<longrightarrow>
       toFixed3 (Finite s m e) =
         (if s then ''-'' else []) @ Number_toString_large (nat \<lfloor>magnitude m e\<rfloor>)) \<and>
    toFixed3 NaN = ''NaN'' \<and>
    toFixed3 (Infinity s) = (if s then ''-Infinity'' else ''Infinity'')"
proof (intro conjI impI)
  show "calculateVolume tokenMap trade =
      Inr (toFixed3 (Math_max
        (spec_leg_value (tokenMap (token_in trade)) (digits_value (amount_in trade)))
        (spec_leg_value (tokenMap (token_out trade)) (digits_value (amount_out trade)))))"
    using assms by (rule calculateVolume_valid)
  show "spec_leg_value token raw =
         (case fdiv (to_double False raw 1)
                 (to_double False (10 ^ (case token of None \<Rightarrow> 0 | Some t \<Rightarrow> decimals t)) 1) of
            Finite s' m' e' \<Rightarrow> Finite s' 0 (- 1074)
          | _ \<Rightarrow> NaN)"
    if "Option.bind token price = None"
    using that by (rule leg_value_missing_price)
  show "Math_max NaN y = NaN" "Math_max x NaN = NaN"
    by (rule Math_max_NaN)+
  show "Math_max x y = x \<or> Math_max x y = y"
    "\<not> number_less (Math_max x y) x" "\<not> number_less (Math_max x y) y"
    if "x \<noteq> NaN \<and> y \<noteq> NaN"
    using that Math_max_greatest [of x y] by simp_all
  show "toFixed3 (Finite s m e) =
         (let n = nat \<lfloor>magnitude m e * 1000 + 1 / 2\<rfloor>
          in (if s \<and> m \<noteq> 0 then ''-'' else []) @ digits_of_nat (n div 1000) @ ''.'' @
             [digit_char (n div 100 mod 10), digit_char (n div 10 mod 10), digit_char (n mod 10)])"
    if "magnitude m e < 10 ^ 21"
    using that by (rule toFixed3_finite)
  show "toFixed3 (Finite s m e) =
         (if s then ''-'' else []) @ Number_toString_large (nat \<lfloor>magnitude m e\<rfloor>)"
    if "10 ^ 21 \<le> magnitude m e"
    using that by (rule toFixed3_large)
  show "toFixed3 NaN = ''NaN''"
    "toFixed3 (Infinity s) = (if s then ''-Infinity'' else ''Infinity'')"
    by (rule toFixed3_not_finite)+
qed

theorem volume_of_trade_witness:
  "valid_amount ''10000000000000'' \<and> valid_amount ''24000000'' \<and>
   calculateVolume example_tokens (example_trade ''5A'' ''10000000000000'' ''5B'' ''24000000'')
     = Inr ''25.000''"
proof -
  have v: "valid_amount ''10000000000000''" "valid_amount ''24000000''"
    by (simp_all add: valid_amount_eval is_digit_def)
  have d: "digits_value ''10000000000000'' = 10000000000000" "digits_value ''24000000'' = 24000000"
    by (simp_all add: digits_value_def digit_val_def)
  have a: "spec_leg_value (example_tokens ''5A'') 10000000000000 = Finite False 7036874417766400 (- 48)"
    by (simp add: example_tokens_def spec_leg_value_def or_zero_def double_eval)
  have b: "spec_leg_value (example_tokens ''5B'') 24000000 = Finite False 6755399441055744 (- 48)"
    by (simp add: example_tokens_def spec_leg_value_def or_zero_def double_eval)
  have m: "Math_max (Finite False 7036874417766400 (- 48)) (Finite False 6755399441055744 (- 48))
      = Finite False 7036874417766400 (- 48)"
    by (simp add: Math_max_def is_zero_def signed_def)
  have f: "toFixed3 (Finite False 7036874417766400 (- 48)) = ''25.000''"
    by (simp add: toFixed3_def shift_ratio_def Let_def digits_of_nat.simps digit_char_eval)
  have "calculateVolume example_tokens (example_trade ''5A'' ''10000000000000'' ''5B'' ''24000000'') =
      Inr (toFixed3 (Math_max
        (spec_leg_value (example_tokens ''5A'') (digits_value ''10000000000000''))
        (spec_leg_value (example_tokens ''5B'') (digits_value ''24000000''))))"
    using v volume_of_trade
      [of "example_trade ''5A'' ''10000000000000'' ''5B'' ''24000000''" example_tokens]
    by (simp add: example_trade_def)
  then show ?thesis
    using v by (simp only: d a b m f)
qed

text \<open>
  Claim C6 says that a trade whose two tokens are both unknown to the registry has the
  volume \<open>0.000\<close>. The amount \<open>10\<^sup>3\<^sup>0\<^sup>9\<close> is beyond the doubles and is read as \<open>Infinity\<close>; its
  value at the price 0 is \<open>NaN\<close>, and so is the volume of the trade.
\<close>

theorem volume_unknown_tokens_counterexample:
  "example_tokens ''5X'' = None \<and> example_tokens ''5Y'' = None \<and>
   calculateVolume example_tokens
     (example_trade ''5X'' (CHR ''1'' # replicate 309 (CHR ''0'')) ''5Y'' ''1'') = Inr ''NaN''"
proof -
  have t: "example_tokens ''5X'' = None" "example_tokens ''5Y'' = None"
    by (simp_all add: example_tokens_def)
  have v: "valid_amount ''1''" by (simp add: valid_amount_eval is_digit_def)
  have "calculateVolume example_tokens
     (example_trade ''5X'' (CHR ''1'' # replicate 309 (CHR ''0'')) ''5Y'' ''1'') =
     Inr (toFixed3 (Math_max
        (spec_leg_value None (digits_value (CHR ''1'' # replicate 309 (CHR ''0''))))
        (spec_leg_value None (digits_value ''1''))))"
    using v valid_one_zeros [of 309] t
    by (subst calculateVolume_valid) (simp_all add: example_trade_def)
  then show ?thesis
    using t by (simp only: leg_value_overflow Math_max_NaN toFixed3_not_finite)
qed

text \<open>
  Claim C6, amended. For a trade with valid amounts whose two tokens are both unknown to the
  registry, the registry misses raise no error, and the missing entries fall back to no
  decimals and the price 0: the volume is that of two legs valued without a token. It is
  \<open>0.000\<close> when both amounts are below \<open>2\<^sup>1\<^sup>0\<^sup>2\<^sup>4 - 2\<^sup>9\<^sup>7\<^sup>0\<close>, the least integer that is read as
  \<open>Infinity\<close>, and it is \<open>NaN\<close> when one of them is not.
\<close>

theorem volume_unknown_tokens:
  assumes "tokenMap (token_in trade) = None" and "tokenMap (token_out trade) = None"
    and "valid_amount (amount_in trade)" and "valid_amount (amount_out trade)"
  shows "calculateVolume tokenMap trade =
      Inr (toFixed3 (Math_max
        (fmul (fdiv (to_double False (digits_value (amount_in trade)) 1)
                 (to_double False (10 ^ 0) 1)) zero)
        (fmul (fdiv (to_double False (digits_value (amount_out trade)) 1)
                 (to_double False (10 ^ 0) 1)) zero))) \<and>
    calculateVolume tokenMap trade =
      Inr (if digits_value (amount_in trade) < 2 ^ 1024 - 2 ^ 970 \<and>
              digits_value (amount_out trade) < 2 ^ 1024 - 2 ^ 970
           then ''0.000'' else ''NaN'')"
proof
  have v: "calculateVolume tokenMap trade =
      Inr (toFixed3 (Math_max (spec_leg_value None (digits_value (amount_in trade)))
        (spec_leg_value None (digits_value (amount_out trade)))))"
    using assms by (simp add: calculateVolume_valid)
  then show "calculateVolume tokenMap trade =
      Inr (toFixed3 (Math_max
        (fmul (fdiv (to_double False (digits_value (amount_in trade)) 1)
                 (to_double False (10 ^ 0) 1)) zero)
        (fmul (fdiv (to_double False (digits_value (amount_out trade)) 1)
                 (to_double False (10 ^ 0) 1)) zero)))"
    by (simp add: spec_leg_value_def or_zero_def del: One_nat_def)
  have l: "spec_leg_value None a = (if a < 2 ^ 1024 - 2 ^ 970 then zero else NaN)" for a
    using leg_value_unknown_token [of a] leg_value_unknown_overflow [of a] by simp
  show "calculateVolume tokenMap trade =
      Inr (if digits_value (amount_in trade) < 2 ^ 1024 - 2 ^ 970 \<and>
              digits_value (amount_out trade) < 2 ^ 1024 - 2 ^ 970
           then ''0.000'' else ''NaN'')"
    unfolding v l by (simp add: toFixed3_zero Math_max_NaN toFixed3_not_finite)
qed

theorem volume_unknown_tokens_witness:
  "example_tokens ''5X'' = None \<and> example_tokens ''5Y'' = None \<and>
   valid_amount ''123456789012345678901234567890'' \<and> valid_amount ''42'' \<and>
   calculateVolume example_tokens
     (example_trade ''5X'' ''123456789012345678901234567890'' ''5Y'' ''42'') = Inr ''0.000''"
proof -
  have v: "valid_amount ''123456789012345678901234567890''" "valid_amount ''42''"
    by (simp_all add: valid_amount_eval is_digit_def)
  have d: "digits_value ''123456789012345678901234567890'' = 123456789012345678901234567890"
    "digits_value ''42'' = 42"
    by (simp_all add: digits_value_def digit_val_def)
  have t: "example_tokens ''5X'' = None" "example_tokens ''5Y'' = None"
    by (simp_all add: example_tokens_def)
  show ?thesis
    using v t volume_unknown_tokens
      [of example_tokens "example_trade ''5X'' ''123456789012345678901234567890'' ''5Y'' ''42''",
        THEN conjunct2]
    by (simp add: example_trade_def d)
qed

text \<open>
  Claim C10. Two trades that agree on \<open>amount_in\<close>, \<open>amount_out\<close>, \<open>token_in\<close> and \<open>token_out\<close>
  have the same volume, also in two registries that agree at these two addresses: the
  result depends neither on the origin, the path, the block number or the extrinsic index
  of the trade, nor on the registry entries of other addresses.
\<close>

theorem volume_depends_on_legs_only:
  assumes "amount_in trade1 = amount_in trade2" and "amount_out trade1 = amount_out trade2"
    and "token_in trade1 = token_in trade2" and "token_out trade1 = token_out trade2"
    and "tokenMap1 (token_in trade1) = tokenMap2 (token_in trade1)"
    and "tokenMap1 (token_out trade1) = tokenMap2 (token_out trade1)"
  shows "calculateVolume tokenMap1 trade1 = calculateVolume tokenMap2 trade2"
proof -
  have i: "tokenMap1 (token_in trade2) = tokenMap2 (token_in trade2)"
    using assms(3,5) by simp
  have o: "tokenMap1 (token_out trade2) = tokenMap2 (token_out trade2)"
    using assms(4,6) by simp
  show ?thesis
    unfolding calculateVolume_def assms(1-4) i o ..
qed

theorem volume_depends_on_legs_only_witness:
  "calculateVolume example_tokens (example_trade ''5A'' ''10000000000000'' ''5B'' ''24000000'') =
   calculateVolume
     (example_tokens(''5C'' := None, ''5Z'' \<mapsto> \<lparr>address = ''5Z'', symbol = ''ZED'', decimals = 2,
        price = None\<rparr>))
     \<lparr>origin = ''5P'', token_in = ''5A'', token_out = ''5B'', path = [''5A'', ''5C'', ''5B''],
      amount_in = ''10000000000000'', amount_out = ''24000000'', block_num = 77,
      extrinsic_index = 3\<rparr>"
  using volume_depends_on_legs_only
    [of "example_trade ''5A'' ''10000000000000'' ''5B'' ''24000000''"
        "\<lparr>origin = ''5P'', token_in = ''5A'', token_out = ''5B'', path = [''5A'', ''5C'', ''5B''],
          amount_in = ''10000000000000'', amount_out = ''24000000'', block_num = 77,
          extrinsic_index = 3\<rparr>"
        example_tokens
        "example_tokens(''5C'' := None, ''5Z'' \<mapsto> \<lparr>address = ''5Z'', symbol = ''ZED'', decimals = 2,
           price = None\<rparr>)"]
  by (simp add: example_trade_def)

section \<open>Properties of the total volume\<close>

text \<open>
  Claim C2 says that the total volume is a sum rounded to three decimals. Like the volume
  of a trade it is rendered by \<^verbatim>\<open>toFixed(3)\<close>, which gives the exponent form from \<open>10\<^sup>2\<^sup>1\<close> on:
  over the single trade of \<open>10\<^sup>2\<^sup>1\<close> units at the price 1, whose volume is \<open>1e+21\<close>, the total
  is \<open>1e+21\<close> as well.
\<close>

theorem total_volume_double_rounding_counterexample:
  "totalVolumeText example_tokens
     [example_trade ''5C'' ''1000000000000000000000'' ''5B'' ''1000000''] = Inr ''1e+21''"
  by (rule example_total_large)

text \<open>
  Claim C2, amended. For every registry and every finite sequence of trades with valid
  amounts, every trade has a volume. Whenever every trade has a volume, the total volume is
  the sum, by floating-point addition from 0 in the order of the sequence, of the volumes
  of the trades, each already rendered by \<^verbatim>\<open>toFixed(3)\<close> and parsed back to a number, and
  this sum is rendered by \<^verbatim>\<open>toFixed(3)\<close> again: the double rounding is kept, the exact values
  are not summed. When the sum is a finite number below \<open>10\<^sup>2\<^sup>1\<close>, the total has exactly three
  fractional digits, those of the sum times 1000 rounded to the nearest integer, a half
  upwards. The total over the empty sequence is \<open>0.000\<close>.
\<close>

theorem total_volume_double_rounding:
  "(list_all (\<lambda>t. valid_amount (amount_in t) \<and> valid_amount (amount_out t)) trades \<longrightarrow>
      (\<exists>volumes. map (calculateVolume tokenMap) trades = map Inr volumes)) \<and>
   (map (calculateVolume tokenMap) trades = map Inr volumes \<longrightarrow>
      totalVolumeText tokenMap trades = Inr (spec_total_volume volumes)) \<and>
   (foldl fadd zero (map parseFloat volumes) = Finite s m e \<and> magnitude m e < 10 ^ 21 \<longrightarrow>
      spec_total_volume volumes =
        (let n = nat \<lfloor>magnitude m e * 1000 + 1 / 2\<rfloor>
         in (if s \<and> m \<noteq> 0 then ''-'' else []) @ digits_of_nat (n div 1000) @ ''.'' @
            [digit_char (n div 100 mod 10), digit_char (n div 10 mod 10), digit_char (n mod 10)])) \<and>
   totalVolumeText tokenMap [] = Inr ''0.000''"
proof (intro conjI impI)
  show "\<exists>volumes. map (calculateVolume tokenMap) trades = map Inr volumes"
    if "list_all (\<lambda>t. valid_amount (amount_in t) \<and> valid_amount (amount_out t)) trades"
    using that by (rule volumes_of_valid_trades)
  show "totalVolumeText tokenMap trades = Inr (spec_total_volume volumes)"
    if "map (calculateVolume tokenMap) trades = map Inr volumes"
    using that by (rule total_volume_fold)
  show "spec_total_volume volumes =
        (let n = nat \<lfloor>magnitude m e * 1000 + 1 / 2\<rfloor>
         in (if s \<and> m \<noteq> 0 then ''-'' else []) @ digits_of_nat (n div 1000) @ ''.'' @
            [digit_char (n div 100 mod 10), digit_char (n div 10 mod 10), digit_char (n mod 10)])"
    if "foldl fadd zero (map parseFloat volumes) = Finite s m e \<and> magnitude m e < 10 ^ 21"
    using that toFixed3_finite [of m e s] by (simp add: spec_total_volume_def)
  show "totalVolumeText tokenMap [] = Inr ''0.000''"
    by (simp add: totalVolumeText_def calculateTotalVolume_def zero_def toFixed3_of_zero)
qed

theorem total_volume_double_rounding_witness:
  "list_all (\<lambda>t. valid_amount (amount_in t) \<and> valid_amount (amount_out t))
     [example_trade ''5D'' ''6'' ''5X'' ''1'', example_trade ''5D'' ''6'' ''5X'' ''1''] \<and>
   map (calculateVolume example_tokens)
     [example_trade ''5D'' ''6'' ''5X'' ''1'', example_trade ''5D'' ''6'' ''5X'' ''1''] =
     map Inr [''0.001'', ''0.001''] \<and>
   totalVolumeText example_tokens
     [example_trade ''5D'' ''6'' ''5X'' ''1'', example_trade ''5D'' ''6'' ''5X'' ''1''] = Inr ''0.002'' \<and>
   toFixed3 (fadd (spec_leg_value (example_tokens ''5D'') 6) (spec_leg_value (example_tokens ''5D'') 6))
     = ''0.001''"
proof -
  have v: "list_all (\<lambda>t. valid_amount (amount_in t) \<and> valid_amount (amount_out t))
     [example_trade ''5D'' ''6'' ''5X'' ''1'', example_trade ''5D'' ''6'' ''5X'' ''1'']"
    by (simp add: example_trade_def valid_amount_eval is_digit_def)
  have m: "map (calculateVolume example_tokens)
     [example_trade ''5D'' ''6'' ''5X'' ''1'', example_trade ''5D'' ''6'' ''5X'' ''1''] =
     map Inr [''0.001'', ''0.001'']"
    by (simp add: example_volume_small)
  have "totalVolumeText example_tokens
     [example_trade ''5D'' ''6'' ''5X'' ''1'', example_trade ''5D'' ''6'' ''5X'' ''1''] =
     Inr (spec_total_volume [''0.001'', ''0.001''])"
    using m total_volume_double_rounding
      [of "[example_trade ''5D'' ''6'' ''5X'' ''1'', example_trade ''5D'' ''6'' ''5X'' ''1'']"
          example_tokens "[''0.001'', ''0.001'']"]
    by blast
  then have "totalVolumeText example_tokens
     [example_trade ''5D'' ''6'' ''5X'' ''1'', example_trade ''5D'' ''6'' ''5X'' ''1''] = Inr ''0.002''"
    by (simp only: example_sum_rounded)
  with v m example_sum_unrounded show ?thesis by (intro conjI)
qed

text \<open>
  Claim C8 says that a parse error in the volume of one trade aborts that computation only,
  and that the total over the remaining trades still completes. Nothing catches the
  exception inside \<^verbatim>\<open>reduce\<close>: with a trade of the amount \<open>12x\<close> in front of a trade whose
  volume is \<open>25.000\<close>, the aggregation fails with the parse error and gives no total.
\<close>

theorem total_volume_aborts_counterexample:
  "calculateVolume example_tokens (example_trade ''5A'' ''10000000000000'' ''5B'' ''24000000'')
     = Inr ''25.000'' \<and>
   calculateTotalVolume example_tokens
     [example_trade ''5A'' ''12x'' ''5B'' ''24000000'',
      example_trade ''5A'' ''10000000000000'' ''5B'' ''24000000''] = Inl ParseError \<and>
   totalVolumeText example_tokens
     [example_trade ''5A'' ''12x'' ''5B'' ''24000000'',
      example_trade ''5A'' ''10000000000000'' ''5B'' ''24000000''] = Inl ParseError"
  by (simp add: totalVolumeText_def calculateTotalVolume_def example_volume_bad example_volume_25)

text \<open>
  Claim C8, amended. A failure in the volume of one trade is not local to that trade: it
  aborts the whole aggregation. The aggregation fails with an error exactly when the
  sequence has a trade whose volume fails with that error while the volumes of all trades
  before it are produced; the trades after it are not looked at, and no total is produced,
  so the failing trade does not count as 0 either. The total as it is shown fails exactly
  when the aggregation does. The volume of a trade fails with a parse error when one of its
  two amounts contains a character that is not a digit, white space or a minus sign.
\<close>

theorem total_volume_aborts:
  "(calculateTotalVolume tokenMap trades = Inl e \<longleftrightarrow>
      (\<exists>before trade rest. trades = before @ trade # rest \<and>
         list_all (\<lambda>t. \<exists>v. calculateVolume tokenMap t = Inr v) before \<and>
         calculateVolume tokenMap trade = Inl e)) \<and>
   (totalVolumeText tokenMap trades = Inl e \<longleftrightarrow> calculateTotalVolume tokenMap trades = Inl e) \<and>
   ((c \<in> set (amount_in t) \<or> c \<in> set (amount_out t)) \<and>
    \<not> is_digit c \<and> \<not> is_space c \<and> c \<noteq> CHR ''-'' \<longrightarrow>
      calculateVolume tokenMap t = Inl ParseError)"
proof (intro conjI impI)
  show "calculateTotalVolume tokenMap trades = Inl e \<longleftrightarrow>
      (\<exists>before trade rest. trades = before @ trade # rest \<and>
         list_all (\<lambda>t. \<exists>v. calculateVolume tokenMap t = Inr v) before \<and>
         calculateVolume tokenMap trade = Inl e)"
    unfolding calculateTotalVolume_def by (rule reduce_volume_error_iff)
  show "totalVolumeText tokenMap trades = Inl e \<longleftrightarrow> calculateTotalVolume tokenMap trades = Inl e"
    by (cases "calculateTotalVolume tokenMap trades") (simp_all add: totalVolumeText_def)
  show "calculateVolume tokenMap t = Inl ParseError"
    if "(c \<in> set (amount_in t) \<or> c \<in> set (amount_out t)) \<and>
        \<not> is_digit c \<and> \<not> is_space c \<and> c \<noteq> CHR ''-''"
    using that volume_bad_amount [of c t tokenMap] volume_bad_amount_out [of c t tokenMap]
    by blast
qed

theorem total_volume_aborts_witness:
  "calculateVolume example_tokens (example_trade ''5A'' ''10000000000000'' ''5B'' ''24000000'')
     = Inr ''25.000'' \<and>
   CHR ''x'' \<in> set (amount_in (example_trade ''5A'' ''12x'' ''5B'' ''24000000'')) \<and>
   calculateVolume example_tokens (example_trade ''5A'' ''12x'' ''5B'' ''24000000'') = Inl ParseError \<and>
   totalVolumeText example_tokens
     [example_trade ''5A'' ''10000000000000'' ''5B'' ''24000000'',
      example_trade ''5A'' ''12x'' ''5B'' ''24000000'',
      example_trade ''5A'' ''10000000000000'' ''5B'' ''24000000''] = Inl ParseError"
proof -
  note inst = total_volume_aborts
    [of example_tokens
        "[example_trade ''5A'' ''10000000000000'' ''5B'' ''24000000'',
          example_trade ''5A'' ''12x'' ''5B'' ''24000000'',
          example_trade ''5A'' ''10000000000000'' ''5B'' ''24000000'']"
        ParseError "CHR ''x''" "example_trade ''5A'' ''12x'' ''5B'' ''24000000''"]
  have x: "CHR ''x'' \<in> set (amount_in (example_trade ''5A'' ''12x'' ''5B'' ''24000000''))"
    "\<not> is_digit (CHR ''x'')" "\<not> is_space (CHR ''x'')" "CHR ''x'' \<noteq> CHR ''-''"
    by (simp_all add: example_trade_def is_digit_def is_space_def)
  with inst have bad:
    "calculateVolume example_tokens (example_trade ''5A'' ''12x'' ''5B'' ''24000000'') = Inl ParseError"
    by blast
  have "[example_trade ''5A'' ''10000000000000'' ''5B'' ''24000000'',
          example_trade ''5A'' ''12x'' ''5B'' ''24000000'',
          example_trade ''5A'' ''10000000000000'' ''5B'' ''24000000''] =
        [example_trade ''5A'' ''10000000000000'' ''5B'' ''24000000''] @
          example_trade ''5A'' ''12x'' ''5B'' ''24000000'' #
          [example_trade ''5A'' ''10000000000000'' ''5B'' ''24000000''] \<and>
      list_all (\<lambda>t. \<exists>v. calculateVolume example_tokens t = Inr v)
        [example_trade ''5A'' ''10000000000000'' ''5B'' ''24000000''] \<and>
      calculateVolume example_tokens (example_trade ''5A'' ''12x'' ''5B'' ''24000000'') = Inl ParseError"
    using bad by (simp add: example_volume_25)
  then have "\<exists>before trade rest.
      [example_trade ''5A'' ''10000000000000'' ''5B'' ''24000000'',
       example_trade ''5A'' ''12x'' ''5B'' ''24000000'',
       example_trade ''5A'' ''10000000000000'' ''5B'' ''24000000''] = before @ trade # rest \<and>
      list_all (\<lambda>t. \<exists>v. calculateVolume example_tokens t = Inr v) before \<and>
      calculateVolume example_tokens trade = Inl ParseError"
    by blast
  with inst have "totalVolumeText example_tokens
     [example_trade ''5A'' ''10000000000000'' ''5B'' ''24000000'',
      example_trade ''5A'' ''12x'' ''5B'' ''24000000'',
      example_trade ''5A'' ''10000000000000'' ''5B'' ''24000000''] = Inl ParseError"
    by blast
  with x(1) bad example_volume_25 show ?thesis by (intro conjI)
qed

end
